theory Spec2Isabelle
  imports Main "HOL-Library.Sublist" "HOL-Library.List_Lexorder" "HOL-Library.Char_ord"
begin

section \<open>Values, errors and the outside world\<close>

text \<open>
  The server handles parsed JSON documents. Floating-point numbers are left out: a JSON
  number is an integer here. A JSON object is an association list whose keys are
  pairwise distinct, as \<^verbatim>\<open>json.loads\<close> produces them.
\<close>

datatype json =
    JNull
  | JBool bool
  | JInt int
  | JStr string
  | JArr "json list"
  | JObj "(string \<times> json) list"

text \<open>The Python exceptions the program can meet, as values.\<close>

datatype error =
    KeyError string
  | IndexError
  | TypeError
  | AttributeError
  | ValueError string
  | BinasciiError
  | OSError
  | RuntimeError string
  | CalledProcessError
  | RequestException
  | HTTPError int
  | JSONDecodeError
  | BadRequest

text \<open>
  \<^verbatim>\<open>repo_name = f"{task_id}-{uuid.uuid4().hex[:6]}"\<close>: formatted strings are kept as
  the values they are built from.
\<close>

datatype repo = Repo json string

datatype url =
    ApiUserRepos
  | ApiPages "string option" repo
  | HostedPages "string option" repo
  | Callback json

record payload =
  p_email :: json
  p_task :: json
  p_round :: int
  p_nonce :: json
  p_repo_url :: json
  p_commit_sha :: string
  p_pages_url :: url

datatype body =
    NoBody
  | RepoBody repo json int
  | PagesBody
  | Notification payload

datatype meth = GET | POST | PUT

datatype git_cmd =
    GitInit
  | GitConfigEmail string
  | GitConfigName string
  | GitAddAll
  | GitCommit json int
  | GitRemoteAdd "string option" "string option" repo
  | GitBranchMain
  | GitPushMain
  | GitRevParseHead

text \<open>What the program does to the outside world, in the order it does it.\<close>

datatype event =
    Http meth url body
  | Sleep int
  | Run git_cmd string
  | Mkdtemp json
  | WriteFile string string

text \<open>The lines the program prints.\<close>

datatype log_msg =
    LProcessing json
  | LWorkspace string
  | LAttachment string string
  | LCmd git_cmd string
  | LPagesStatus int
  | LPagesWarning url
  | LNotifyAttempt nat int
  | LNotifyError error
  | LNotifyFailed
  | LFinished json json
  | LError error

text \<open>
  A file's content: decoded attachment bytes, or one of the generated texts, kept as the
  values its template is filled with.
\<close>

datatype content =
    Bytes "nat list"
  | IndexHtml json
  | Readme json
  | License int string

text \<open>
  An HTTP call either yields a response (status code, and the JSON document of its body
  when it has one) or raises a transport exception.
\<close>

datatype http_outcome = Resp int "json option" | ConnFail

text \<open>
  The environment: the configuration read at start-up (\<^verbatim>\<open>GH_TOKEN\<close>, \<^verbatim>\<open>GH_USER\<close>) and
  what the outside world answers. The k-th HTTP call, the k-th subprocess and the k-th
  file-system operation each have an outcome of their own.
\<close>

record env =
  gh_token :: "string option"
  gh_user :: "string option"
  utc_year :: int
  int_of_str :: "string \<Rightarrow> int option"
  http_result :: "nat \<Rightarrow> http_outcome"
  http_latency :: "nat \<Rightarrow> nat"
  proc_result :: "nat \<Rightarrow> string option"
  mkdtemp_result :: "nat \<Rightarrow> string option"
  write_ok :: "nat \<Rightarrow> bool"
  uuid_hex :: "nat \<Rightarrow> string"

text \<open>
  The state of the world: the clock read by \<^verbatim>\<open>time.time()\<close>, the effects so far, the
  printed lines, how many calls of each kind were made, and the directories made by
  \<^verbatim>\<open>tempfile.mkdtemp\<close> with the files written into them.
\<close>

record world =
  clock :: int
  trace :: "event list"
  stdout :: "log_msg list"
  http_calls :: nat
  proc_calls :: nat
  fs_calls :: nat
  uuid_calls :: nat
  dirs :: "string \<rightharpoonup> (string \<rightharpoonup> content)"

type_synonym 'a io = "world \<Rightarrow> (error + 'a) \<times> world"

definition ret :: "'a \<Rightarrow> 'a io" where
  "ret x w = (Inr x, w)"

definition py_raise :: "error \<Rightarrow> 'a io" where
  "py_raise e w = (Inl e, w)"

definition lift :: "error + 'a \<Rightarrow> 'a io" where
  "lift r w = (r, w)"

text \<open>Sequencing: an exception skips everything that follows.\<close>

definition bindE :: "'a io \<Rightarrow> ('a \<Rightarrow> 'b io) \<Rightarrow> 'b io" where
  "bindE m f w = (case m w of (Inl e, w') \<Rightarrow> (Inl e, w') | (Inr x, w') \<Rightarrow> f x w')"

definition log_line :: "log_msg \<Rightarrow> world \<Rightarrow> world" where
  "log_line m w = w\<lparr>stdout := stdout w @ [m]\<rparr>"

definition py_print :: "log_msg \<Rightarrow> unit io" where
  "py_print m w = (Inr (), log_line m w)"

text \<open>\<^verbatim>\<open>time.sleep(d)\<close> raises ValueError on a negative length.\<close>

definition py_sleep :: "int \<Rightarrow> unit io" where
  "py_sleep d w =
     (if d < 0 then (Inl (ValueError ''sleep length must be non-negative''), w)
      else (Inr (), w\<lparr>clock := clock w + d, trace := trace w @ [Sleep d]\<rparr>))"

text \<open>
  \<^verbatim>\<open>requests.get\<close>, \<^verbatim>\<open>requests.post\<close> and \<^verbatim>\<open>requests.put\<close>: the call is recorded, takes
  the time the environment says, and yields the environment's outcome.
\<close>

definition http_request :: "env \<Rightarrow> meth \<Rightarrow> url \<Rightarrow> body \<Rightarrow> (int \<times> json option) io" where
  "http_request env m u b w =
     (let k = http_calls w;
          w' = w\<lparr>clock := clock w + int (http_latency env k),
                 trace := trace w @ [Http m u b],
                 http_calls := Suc k\<rparr>
      in case http_result env k of
           ConnFail \<Rightarrow> (Inl RequestException, w')
         | Resp status doc \<Rightarrow> (Inr (status, doc), w'))"

section \<open>The completion notifier\<close>

text \<open>
  \<^verbatim>\<open>
  def notify_with_backoff(eval_url, payload, max_attempts=8):
      delay = 1
      for attempt in range(max_attempts):
          try:
              r = requests.post(eval_url, json=payload, headers=headers, timeout=10)
              print("Notify attempt", attempt+1, "status", r.status_code)
              if r.status_code == 200:
                  return True
          except Exception as e:
              print("Notify error:", e)
          time.sleep(delay)
          delay = min(delay*2, 60)
      return False
  \<close>
  The loop is a recursion on the number of attempts that remain.
\<close>

fun notify_loop :: "env \<Rightarrow> json \<Rightarrow> payload \<Rightarrow> nat \<Rightarrow> nat \<Rightarrow> int \<Rightarrow> bool io" where
  "notify_loop env eval_url pl 0 attempt delay w = (Inr False, w)"
| "notify_loop env eval_url pl (Suc n) attempt delay w =
     (case http_request env POST (Callback eval_url) (Notification pl) w of
        (Inr (status, doc), w1) \<Rightarrow>
          (let w2 = log_line (LNotifyAttempt (attempt + 1) status) w1 in
           if status = 200 then (Inr True, w2)
           else bindE (py_sleep delay)
                  (\<lambda>_. notify_loop env eval_url pl n (attempt + 1) (min (delay * 2) 60)) w2)
      | (Inl e, w1) \<Rightarrow>
          bindE (py_sleep delay)
            (\<lambda>_. notify_loop env eval_url pl n (attempt + 1) (min (delay * 2) 60))
            (log_line (LNotifyError e) w1))"

declare notify_loop.simps(2) [simp del]

definition notify_with_backoff :: "env \<Rightarrow> json \<Rightarrow> payload \<Rightarrow> int \<Rightarrow> bool io" where
  "notify_with_backoff env eval_url pl max_attempts =
     notify_loop env eval_url pl (nat max_attempts) 0 1"

text \<open>The delays slept after n failed attempts, starting from the delay d.\<close>

fun delays :: "int \<Rightarrow> nat \<Rightarrow> int list" where
  "delays d 0 = []"
| "delays d (Suc n) = d # delays (min (d * 2) 60) n"

text \<open>An attempt is delivered only by a response whose status is exactly 200.\<close>

fun delivered :: "http_outcome \<Rightarrow> bool" where
  "delivered (Resp status doc) = (status = 200)"
| "delivered ConnFail = False"

definition failed_round :: "json \<Rightarrow> payload \<Rightarrow> int \<Rightarrow> event list" where
  "failed_round eval_url pl d = [Http POST (Callback eval_url) (Notification pl), Sleep d]"

definition new_events :: "world \<Rightarrow> world \<Rightarrow> event list" where
  "new_events w w' = drop (length (trace w)) (trace w')"

fun sleep_of :: "event \<Rightarrow> int option" where
  "sleep_of (Sleep d) = Some d"
| "sleep_of _ = None"

definition sleeps :: "event list \<Rightarrow> int list" where
  "sleeps es = List.map_filter sleep_of es"

fun is_http :: "event \<Rightarrow> bool" where
  "is_http (Http m u b) = True"
| "is_http _ = False"

section \<open>The availability poller\<close>

text \<open>
  \<^verbatim>\<open>
  def wait_for_pages(pages_url, timeout=180, poll_interval=2):
      end = time.time() + timeout
      while time.time() < end:
          try:
              r = requests.get(pages_url, timeout=10)
              if r.status_code == 200:
                  return True
          except Exception:
              pass
          time.sleep(poll_interval)
      return False
  \<close>
  The loop need not end (a zero poll interval against probes that take no time), so
  not returning is the value \<open>None\<close>. The clock is read at every test of the loop; it
  advances only by the latency of a probe and by a sleep.
\<close>

partial_function (option) wait_loop ::
  "env \<Rightarrow> url \<Rightarrow> int \<Rightarrow> int \<Rightarrow> world \<Rightarrow> ((error + bool) \<times> world) option" where
  "wait_loop env pages_url deadline poll_interval w =
     (if clock w < deadline then
        (case http_request env GET pages_url NoBody w of
           (Inr (status, doc), w1) \<Rightarrow>
             if status = 200 then Some (Inr True, w1)
             else (case py_sleep poll_interval w1 of
                     (Inl e, w2) \<Rightarrow> Some (Inl e, w2)
                   | (Inr u, w2) \<Rightarrow> wait_loop env pages_url deadline poll_interval w2)
         | (Inl e, w1) \<Rightarrow>
             (case py_sleep poll_interval w1 of
                (Inl e', w2) \<Rightarrow> Some (Inl e', w2)
              | (Inr u, w2) \<Rightarrow> wait_loop env pages_url deadline poll_interval w2))
      else Some (Inr False, w))"

definition wait_for_pages ::
  "env \<Rightarrow> url \<Rightarrow> int \<Rightarrow> int \<Rightarrow> world \<Rightarrow> ((error + bool) \<times> world) option" where
  "wait_for_pages env pages_url timeout poll_interval w =
     wait_loop env pages_url (clock w + timeout) poll_interval w"

text \<open>The world after one probe that did not succeed and the sleep that follows it.\<close>

definition probe_round :: "env \<Rightarrow> url \<Rightarrow> int \<Rightarrow> world \<Rightarrow> world" where
  "probe_round env u p w =
     w\<lparr>clock := clock w + int (http_latency env (http_calls w)) + p,
       trace := trace w @ [Http GET u NoBody, Sleep p],
       http_calls := Suc (http_calls w)\<rparr>"

section \<open>Python values\<close>

text \<open>Truth value testing: None, False, 0, the empty string, list and dict are false.\<close>

fun truthy :: "json \<Rightarrow> bool" where
  "truthy JNull = False"
| "truthy (JBool b) = b"
| "truthy (JInt n) = (n \<noteq> 0)"
| "truthy (JStr s) = (s \<noteq> [])"
| "truthy (JArr xs) = (xs \<noteq> [])"
| "truthy (JObj d) = (d \<noteq> [])"

text \<open>An environment variable is false when it is unset or empty (\<^verbatim>\<open>GH_USER or "unknown"\<close>).\<close>

definition str_truthy :: "string option \<Rightarrow> bool" where
  "str_truthy s = (case s of None \<Rightarrow> False | Some t \<Rightarrow> t \<noteq> [])"

definition str_or :: "string option \<Rightarrow> string \<Rightarrow> string" where
  "str_or s d = (case s of None \<Rightarrow> d | Some t \<Rightarrow> if t = [] then d else t)"

text \<open>\<^verbatim>\<open>x.get(k, default)\<close>: only a dict has the method.\<close>

fun py_get :: "json \<Rightarrow> string \<Rightarrow> json \<Rightarrow> error + json" where
  "py_get (JObj d) k dflt = Inr (case map_of d k of None \<Rightarrow> dflt | Some v \<Rightarrow> v)"
| "py_get _ k dflt = Inl AttributeError"

text \<open>\<^verbatim>\<open>x[k]\<close> with a string key: KeyError on a dict without the key, TypeError otherwise.\<close>

fun py_getitem :: "json \<Rightarrow> string \<Rightarrow> error + json" where
  "py_getitem (JObj d) k = (case map_of d k of None \<Rightarrow> Inl (KeyError k) | Some v \<Rightarrow> Inr v)"
| "py_getitem _ k = Inl TypeError"

text \<open>\<^verbatim>\<open>int(x)\<close>; the parsing of a string is the environment's \<open>int_of_str\<close>.\<close>

fun py_int :: "env \<Rightarrow> json \<Rightarrow> error + int" where
  "py_int env (JInt n) = Inr n"
| "py_int env (JBool b) = Inr (if b then 1 else 0)"
| "py_int env (JStr s) =
     (case int_of_str env s of
        None \<Rightarrow> Inl (ValueError ''invalid literal for int() with base 10'')
      | Some n \<Rightarrow> Inr n)"
| "py_int env _ = Inl TypeError"

text \<open>
  \<^verbatim>\<open>for att in x\<close>: a list gives its elements, a dict its keys, a string its characters
  (one per byte here).
\<close>

fun py_iter :: "json \<Rightarrow> error + json list" where
  "py_iter (JArr xs) = Inr xs"
| "py_iter (JObj d) = Inr (map (\<lambda>kv. JStr (fst kv)) d)"
| "py_iter (JStr s) = Inr (map (\<lambda>c. JStr [c]) s)"
| "py_iter _ = Inl TypeError"

text \<open>\<^verbatim>\<open>x[0]\<close>.\<close>

fun first_item :: "json \<Rightarrow> error + json" where
  "first_item (JArr (x # xs)) = Inr x"
| "first_item (JArr []) = Inl IndexError"
| "first_item (JStr (c # cs)) = Inr (JStr [c])"
| "first_item (JStr []) = Inl IndexError"
| "first_item (JObj d) = Inl (KeyError ''0'')"
| "first_item _ = Inl TypeError"

text \<open>
  Python's \<^verbatim>\<open>==\<close> on JSON values: True equals 1 and False equals 0, and two dicts are equal
  whatever the order of their items. Both sides are brought to a normal form.
\<close>

fun canon :: "json \<Rightarrow> json" where
  "canon (JBool b) = JInt (if b then 1 else 0)"
| "canon (JArr xs) = JArr (map canon xs)"
| "canon (JObj d) = JObj (sort_key fst (map (\<lambda>(k, v). (k, canon v)) d))"
| "canon j = j"

definition py_eq :: "json \<Rightarrow> json \<Rightarrow> bool" where
  "py_eq a b = (canon a = canon b)"

text \<open>
  \<^verbatim>\<open>k in x\<close> for a string k: a key of a dict, an element of a list, a substring of a
  string; TypeError on anything else.
\<close>

fun py_contains :: "json \<Rightarrow> string \<Rightarrow> error + bool" where
  "py_contains (JObj d) k = Inr (map_of d k \<noteq> None)"
| "py_contains (JArr xs) k = Inr (list_ex (\<lambda>x. py_eq x (JStr k)) xs)"
| "py_contains (JStr s) k = Inr (sublist k s)"
| "py_contains _ k = Inl TypeError"

section \<open>Decoding an attachment\<close>

text \<open>
  \<^verbatim>\<open>
  def decode_data_uri_to_file(data_uri: str, out_path: Path):
      m = re.match(r"data:(.*?);base64,(.*)", data_uri, re.S)
      if not m:
          raise ValueError("Invalid data URI")
      b64 = m.group(2)
      out_path.write_bytes(base64.b64decode(b64))
  \<close>
  The pattern matches when the text starts with \<^verbatim>\<open>data:\<close> and \<^verbatim>\<open>;base64,\<close> occurs after
  that; the lazy first group stops at the first occurrence, and group 2 is all that
  follows it.
\<close>

fun after_marker :: "string \<Rightarrow> string option" where
  "after_marker [] = None"
| "after_marker (c # cs) =
     (if prefix '';base64,'' (c # cs) then Some (drop 8 (c # cs)) else after_marker cs)"

definition data_uri_body :: "string \<Rightarrow> string option" where
  "data_uri_body s = (if prefix ''data:'' s then after_marker (drop 5 s) else None)"

text \<open>The value of a character of the base64 alphabet.\<close>

definition b64_value :: "char \<Rightarrow> nat option" where
  "b64_value c =
     (let n = (of_char c :: nat) in
      if 65 \<le> n \<and> n \<le> 90 then Some (n - 65)
      else if 97 \<le> n \<and> n \<le> 122 then Some (n - 71)
      else if 48 \<le> n \<and> n \<le> 57 then Some (n + 4)
      else if n = 43 then Some 62
      else if n = 47 then Some 63
      else None)"

text \<open>
  \<^verbatim>\<open>binascii.a2b_base64\<close> as \<^verbatim>\<open>base64.b64decode\<close> calls it (\<^verbatim>\<open>validate=False\<close>), following the
  loop of CPython 3.11: a character outside the alphabet is skipped; a \<^verbatim>\<open>=\<close> ends the
  input once the current quad has at least two characters and the padding completes
  it; the input is rejected only when it ends inside a quad.
\<close>

fun a2b_base64 :: "string \<Rightarrow> nat \<Rightarrow> nat \<Rightarrow> nat \<Rightarrow> nat list \<Rightarrow> error + nat list" where
  "a2b_base64 [] quad_pos leftchar pads out =
     (if quad_pos \<noteq> 0 then Inl BinasciiError else Inr out)"
| "a2b_base64 (c # cs) quad_pos leftchar pads out =
     (if c = CHR ''='' then
        (if 2 \<le> quad_pos \<and> 4 \<le> quad_pos + (pads + 1) then Inr out
         else a2b_base64 cs quad_pos leftchar (if 2 \<le> quad_pos then pads + 1 else pads) out)
      else
        (case b64_value c of
           None \<Rightarrow> a2b_base64 cs quad_pos leftchar pads out
         | Some v \<Rightarrow>
             if quad_pos = 0 then a2b_base64 cs 1 v 0 out
             else if quad_pos = 1 then
               a2b_base64 cs 2 (v mod 16) 0 (out @ [leftchar * 4 + v div 16])
             else if quad_pos = 2 then
               a2b_base64 cs 3 (v mod 4) 0 (out @ [leftchar * 16 + v div 4])
             else a2b_base64 cs 0 0 0 (out @ [leftchar * 64 + v])))"

text \<open>A text with a character outside ASCII is refused before decoding.\<close>

definition b64decode :: "string \<Rightarrow> error + nat list" where
  "b64decode s =
     (if list_ex (\<lambda>c. 128 \<le> (of_char c :: nat)) s
      then Inl (ValueError ''string argument should contain only ASCII characters'')
      else a2b_base64 s 0 0 0 [])"

definition decode_data_uri :: "string \<Rightarrow> error + nat list" where
  "decode_data_uri data_uri =
     (case data_uri_body data_uri of
        None \<Rightarrow> Inl (ValueError ''Invalid data URI'')
      | Some b64 \<Rightarrow> b64decode b64)"

text \<open>
  The decoder's rule, read off the loop. The sextets of a body are its characters of the
  alphabet. Padding ends the body at a \<^verbatim>\<open>=\<close> that comes after three characters of a
  quad, or at a second \<^verbatim>\<open>=\<close> after two characters of a quad with no character of the
  alphabet between the two. \<open>stops s q pads\<close> is the same for a scan that is at position
  \<open>q\<close> of a quad and has seen \<open>pads\<close> paddings since the last sextet.
\<close>

definition sextets :: "string \<Rightarrow> string" where
  "sextets s = filter (\<lambda>c. b64_value c \<noteq> None) s"

definition stops :: "string \<Rightarrow> nat \<Rightarrow> nat \<Rightarrow> bool" where
  "stops s q pads =
     (\<exists>p r. s = p @ CHR ''='' # r \<and>
        ((q + length (sextets p)) mod 4 = 3 \<or>
         ((q + length (sextets p)) mod 4 = 2 \<and>
          ((\<exists>p' m. p = p' @ CHR ''='' # m \<and> sextets m = []) \<or>
           (sextets p = [] \<and> 1 \<le> pads)))))"

definition padding_ends :: "string \<Rightarrow> bool" where
  "padding_ends b =
     (\<exists>p r. b = p @ CHR ''='' # r \<and>
        (length (sextets p) mod 4 = 3 \<or>
         (length (sextets p) mod 4 = 2 \<and> (\<exists>p' m. p = p' @ CHR ''='' # m \<and> sextets m = []))))"

text \<open>
  The form the specification declares for a payload, \<^verbatim>\<open>media-type;base64-body\<close>, read as
  a data URI whose body is base64 text: characters of the alphabet, then at most two
  \<^verbatim>\<open>=\<close> of padding, a multiple of four characters in all.
\<close>

definition is_base64_text :: "string \<Rightarrow> bool" where
  "is_base64_text s =
     (let pad = dropWhile (\<lambda>c. c \<noteq> CHR ''='') s in
      list_all (\<lambda>c. b64_value c \<noteq> None) (takeWhile (\<lambda>c. c \<noteq> CHR ''='') s) \<and>
      (pad = [] \<or> pad = ''='' \<or> pad = ''=='') \<and> length s mod 4 = 0)"

definition spec_wellformed_payload :: "string \<Rightarrow> bool" where
  "spec_wellformed_payload data_uri =
     (case data_uri_body data_uri of None \<Rightarrow> False | Some b64 \<Rightarrow> is_base64_text b64)"

section \<open>Files and commands\<close>

text \<open>
  A plain file name denotes a file directly inside the directory it is joined to. Other
  names (empty, with a separator, \<^verbatim>\<open>.\<close> or \<^verbatim>\<open>..\<close>) are resolved by the operating system
  to some place the model does not follow: such a write is recorded in the trace only.
\<close>

definition plain_name :: "string \<Rightarrow> bool" where
  "plain_name n =
     (n \<noteq> [] \<and> n \<noteq> ''.'' \<and> n \<noteq> ''..'' \<and> CHR ''/'' \<notin> set n \<and> CHR 0x00 \<notin> set n)"

text \<open>
  \<^verbatim>\<open>tempfile.mkdtemp(prefix=f"task-{task_id}-")\<close>: a new, empty directory, or OSError.
\<close>

definition mkdtemp :: "env \<Rightarrow> json \<Rightarrow> string io" where
  "mkdtemp env task_id w =
     (let k = fs_calls w;
          w' = w\<lparr>trace := trace w @ [Mkdtemp task_id], fs_calls := Suc k\<rparr>
      in case mkdtemp_result env k of
           None \<Rightarrow> (Inl OSError, w')
         | Some ws \<Rightarrow>
             if dirs w' ws \<noteq> None then (Inl OSError, w')
             else (Inr ws, w'\<lparr>dirs := (dirs w')(ws \<mapsto> Map.empty)\<rparr>))"

text \<open>\<^verbatim>\<open>(ws / name).write_bytes(...)\<close> and \<^verbatim>\<open>(ws / name).write_text(...)\<close>.\<close>

definition write_file :: "env \<Rightarrow> string \<Rightarrow> string \<Rightarrow> content \<Rightarrow> unit io" where
  "write_file env ws name c w =
     (let k = fs_calls w;
          w' = w\<lparr>trace := trace w @ [WriteFile ws name], fs_calls := Suc k\<rparr>
      in case dirs w' ws of
           None \<Rightarrow> (Inl OSError, w')
         | Some files \<Rightarrow>
             if \<not> write_ok env k then (Inl OSError, w')
             else if plain_name name
               then (Inr (), w'\<lparr>dirs := (dirs w')(ws \<mapsto> files(name \<mapsto> c))\<rparr>)
               else (Inr (), w'))"

definition decode_data_uri_to_file :: "env \<Rightarrow> json \<Rightarrow> string \<Rightarrow> string \<Rightarrow> unit io" where
  "decode_data_uri_to_file env data_uri ws name =
     (case data_uri of
        JStr s \<Rightarrow> bindE (lift (decode_data_uri s)) (\<lambda>bytes. write_file env ws name (Bytes bytes))
      | _ \<Rightarrow> py_raise TypeError)"

text \<open>
  \<^verbatim>\<open>
  def run(cmd, cwd=None):
      print(f"> {' '.join(cmd)} (cwd={cwd})")
      return subprocess.run(cmd, cwd=cwd, check=True, ...)
  \<close>
  The result is the captured standard output.
\<close>

definition run :: "env \<Rightarrow> git_cmd \<Rightarrow> string \<Rightarrow> string io" where
  "run env cmd cwd w =
     (let w1 = log_line (LCmd cmd cwd) w;
          k = proc_calls w1;
          w2 = w1\<lparr>trace := trace w1 @ [Run cmd cwd], proc_calls := Suc k\<rparr>
      in case proc_result env k of
           None \<Rightarrow> (Inl CalledProcessError, w2)
         | Some out \<Rightarrow> (Inr out, w2))"

definition write_mit_license :: "env \<Rightarrow> string \<Rightarrow> string \<Rightarrow> unit io" where
  "write_mit_license env ws owner = write_file env ws ''LICENSE'' (License (utc_year env) owner)"

text \<open>
  \<^verbatim>\<open>
  def generate_minimal_app(brief: str, attachments: list):
      default_asset = attachments[0]["name"] if attachments else ""
      ...
      return {"index.html": index_html, "README.md": readme}
  \<close>
\<close>

definition generate_minimal_app :: "json \<Rightarrow> json \<Rightarrow> error + (string \<times> content) list" where
  "generate_minimal_app brief attachments =
     (case (if truthy attachments
            then (case first_item attachments of
                    Inl e \<Rightarrow> Inl e
                  | Inr a \<Rightarrow> py_getitem a ''name'')
            else Inr (JStr [])) of
        Inl e \<Rightarrow> Inl e
      | Inr default_asset \<Rightarrow>
          Inr [(''index.html'', IndexHtml default_asset), (''README.md'', Readme brief)])"

section \<open>The GitHub calls\<close>

text \<open>
  \<^verbatim>\<open>
  def github_create_repo(repo_name, description="Auto-generated repo", private=False):
      if not GH_TOKEN:
          raise RuntimeError("GH_TOKEN not set in environment")
      ...
      r = requests.post(url, json=body, headers=headers, timeout=15)
      r.raise_for_status()
      return r.json()
  \<close>
  The description \<^verbatim>\<open>f"Task {task_id} round {round_no}"\<close> is kept as its two values.
\<close>

definition github_create_repo :: "env \<Rightarrow> repo \<Rightarrow> json \<Rightarrow> int \<Rightarrow> json io" where
  "github_create_repo env repo_name task_id round_no =
     (if \<not> str_truthy (gh_token env)
      then py_raise (RuntimeError ''GH_TOKEN not set in environment'')
      else bindE (http_request env POST ApiUserRepos (RepoBody repo_name task_id round_no))
             (\<lambda>r. if 400 \<le> fst r \<and> fst r < 600 then py_raise (HTTPError (fst r))
                  else (case snd r of None \<Rightarrow> py_raise JSONDecodeError | Some doc \<Rightarrow> ret doc)))"

text \<open>
  \<^verbatim>\<open>
  def github_enable_pages(owner, repo):
      if not GH_TOKEN:
          raise RuntimeError("GH_TOKEN not set")
      ...
      r = requests.post(url, json=body, headers=headers, timeout=10)
      if r.status_code not in (201, 202):
          r = requests.put(url, json=body, headers=headers, timeout=10)
      return r
  \<close>
\<close>

definition github_enable_pages :: "env \<Rightarrow> string option \<Rightarrow> repo \<Rightarrow> (int \<times> json option) io" where
  "github_enable_pages env owner repo_name =
     (if \<not> str_truthy (gh_token env) then py_raise (RuntimeError ''GH_TOKEN not set'')
      else bindE (http_request env POST (ApiPages owner repo_name) PagesBody)
             (\<lambda>r. if fst r \<noteq> 201 \<and> fst r \<noteq> 202
                  then http_request env PUT (ApiPages owner repo_name) PagesBody
                  else ret r))"

section \<open>Processing a task\<close>

text \<open>
  \<^verbatim>\<open>process_task\<close> is one \<^verbatim>\<open>try\<close> block; its statements are grouped here as the source's
  comments group them. The values read from the task first:
  \<^verbatim>\<open>
  print("Processing task:", task_json.get("task"))
  email = task_json["email"]
  task_id = task_json["task"]
  round_no = int(task_json.get("round", 1))
  nonce = task_json.get("nonce")
  brief = task_json.get("brief", "")
  attachments = task_json.get("attachments", [])
  evaluation_url = task_json.get("evaluation_url")
  \<close>
\<close>

record fields =
  f_email :: json
  f_task_id :: json
  f_round_no :: int
  f_nonce :: json
  f_brief :: json
  f_attachments :: json
  f_evaluation_url :: json

definition read_fields :: "env \<Rightarrow> json \<Rightarrow> fields io" where
  "read_fields env task_json =
     bindE (lift (py_get task_json ''task'' JNull)) (\<lambda>t.
     bindE (py_print (LProcessing t)) (\<lambda>_.
     bindE (lift (py_getitem task_json ''email'')) (\<lambda>email.
     bindE (lift (py_getitem task_json ''task'')) (\<lambda>task_id.
     bindE (lift (py_get task_json ''round'' (JInt 1))) (\<lambda>r.
     bindE (lift (py_int env r)) (\<lambda>round_no.
     bindE (lift (py_get task_json ''nonce'' JNull)) (\<lambda>nonce.
     bindE (lift (py_get task_json ''brief'' (JStr []))) (\<lambda>brief.
     bindE (lift (py_get task_json ''attachments'' (JArr []))) (\<lambda>attachments.
     bindE (lift (py_get task_json ''evaluation_url'' JNull)) (\<lambda>evaluation_url.
     ret \<lparr>f_email = email, f_task_id = task_id, f_round_no = round_no, f_nonce = nonce,
          f_brief = brief, f_attachments = attachments,
          f_evaluation_url = evaluation_url\<rparr>))))))))))"

text \<open>
  The workspace stage:
  \<^verbatim>\<open>
  ws = Path(tempfile.mkdtemp(prefix=f"task-{task_id}-"))
  print("Workspace:", ws)
  for att in attachments:
      name = att["name"]
      url = att["url"]
      out = ws / name
      decode_data_uri_to_file(url, out)
      print("Attachment written:", out)
  \<close>
  \<^verbatim>\<open>ws / name\<close> raises TypeError when the name is not a string.
\<close>

definition write_attachment :: "env \<Rightarrow> string \<Rightarrow> json \<Rightarrow> unit io" where
  "write_attachment env ws att =
     bindE (lift (py_getitem att ''name'')) (\<lambda>name.
     bindE (lift (py_getitem att ''url'')) (\<lambda>url.
     (case name of
        JStr n \<Rightarrow> bindE (decode_data_uri_to_file env url ws n) (\<lambda>_. py_print (LAttachment ws n))
      | _ \<Rightarrow> py_raise TypeError)))"

fun write_attachments :: "env \<Rightarrow> string \<Rightarrow> json list \<Rightarrow> unit io" where
  "write_attachments env ws [] = ret ()"
| "write_attachments env ws (att # atts) =
     bindE (write_attachment env ws att) (\<lambda>_. write_attachments env ws atts)"

definition workspace_stage :: "env \<Rightarrow> json \<Rightarrow> json \<Rightarrow> string io" where
  "workspace_stage env task_id attachments =
     bindE (mkdtemp env task_id) (\<lambda>ws.
     bindE (py_print (LWorkspace ws)) (\<lambda>_.
     bindE (lift (py_iter attachments)) (\<lambda>atts.
     bindE (write_attachments env ws atts) (\<lambda>_. ret ws))))"

text \<open>
  The build stage:
  \<^verbatim>\<open>
  files = generate_minimal_app(brief, attachments)
  for fname, content in files.items():
      (ws / fname).write_text(content, encoding="utf-8")
  write_mit_license(ws / "LICENSE", owner=GH_USER or "unknown")
  \<close>
\<close>

fun write_files :: "env \<Rightarrow> string \<Rightarrow> (string \<times> content) list \<Rightarrow> unit io" where
  "write_files env ws [] = ret ()"
| "write_files env ws ((fname, c) # files) =
     bindE (write_file env ws fname c) (\<lambda>_. write_files env ws files)"

definition build_stage :: "env \<Rightarrow> string \<Rightarrow> json \<Rightarrow> json \<Rightarrow> unit io" where
  "build_stage env ws brief attachments =
     bindE (lift (generate_minimal_app brief attachments)) (\<lambda>files.
     bindE (write_files env ws files) (\<lambda>_.
     write_mit_license env ws (str_or (gh_user env) ''unknown'')))"

text \<open>
  The publish stage, up to the commit:
  \<^verbatim>\<open>
  run(["git", "init"], cwd=str(ws))
  run(["git", "config", "user.email", email], cwd=str(ws))
  run(["git", "config", "user.name", GH_USER or "student"], cwd=str(ws))
  run(["git", "add", "--all"], cwd=str(ws))
  run(["git", "commit", "-m", f"Initial commit for {task_id} round {round_no}"], cwd=str(ws))
  \<close>
  \<^verbatim>\<open>' '.join(cmd)\<close> raises TypeError when the email is not a string.
\<close>

definition publish_stage :: "env \<Rightarrow> string \<Rightarrow> json \<Rightarrow> json \<Rightarrow> int \<Rightarrow> unit io" where
  "publish_stage env ws email task_id round_no =
     bindE (run env GitInit ws) (\<lambda>_.
     bindE (case email of JStr e \<Rightarrow> run env (GitConfigEmail e) ws | _ \<Rightarrow> py_raise TypeError) (\<lambda>_.
     bindE (run env (GitConfigName (str_or (gh_user env) ''student'')) ws) (\<lambda>_.
     bindE (run env GitAddAll ws) (\<lambda>_.
     bindE (run env (GitCommit task_id round_no) ws) (\<lambda>_. ret ())))))"

definition local_stages :: "env \<Rightarrow> json \<Rightarrow> (fields \<times> string) io" where
  "local_stages env task_json =
     bindE (read_fields env task_json) (\<lambda>f.
     bindE (workspace_stage env (f_task_id f) (f_attachments f)) (\<lambda>ws.
     bindE (build_stage env ws (f_brief f) (f_attachments f)) (\<lambda>_.
     bindE (publish_stage env ws (f_email f) (f_task_id f) (f_round_no f)) (\<lambda>_.
     ret (f, ws)))))"

text \<open>
  Creating the remote repository, pushing, and reading the commit identifier:
  \<^verbatim>\<open>
  repo_name = f"{task_id}-{uuid.uuid4().hex[:6]}"
  gh_info = github_create_repo(repo_name, description=..., private=False)
  repo_url = gh_info["html_url"]
  remote_url = f"https://{GH_TOKEN}@github.com/{GH_USER}/{repo_name}.git"
  run(["git", "remote", "add", "origin", remote_url], cwd=str(ws))
  run(["git", "branch", "-M", "main"], cwd=str(ws))
  run(["git", "push", "-u", "origin", "main"], cwd=str(ws))
  cp = run(["git", "rev-parse", "HEAD"], cwd=str(ws))
  commit_sha = cp.stdout.strip()
  \<close>
\<close>

definition is_space :: "char \<Rightarrow> bool" where
  "is_space c = (let n = (of_char c :: nat) in (9 \<le> n \<and> n \<le> 13) \<or> (28 \<le> n \<and> n \<le> 32))"

definition strip :: "string \<Rightarrow> string" where
  "strip s = rev (dropWhile is_space (rev (dropWhile is_space s)))"

definition new_repo_name :: "env \<Rightarrow> json \<Rightarrow> repo io" where
  "new_repo_name env task_id w =
     (Inr (Repo task_id (take 6 (uuid_hex env (uuid_calls w)))),
      w\<lparr>uuid_calls := Suc (uuid_calls w)\<rparr>)"

definition create_and_push :: "env \<Rightarrow> fields \<Rightarrow> string \<Rightarrow> (repo \<times> json \<times> string) io" where
  "create_and_push env f ws =
     bindE (new_repo_name env (f_task_id f)) (\<lambda>repo_name.
     bindE (github_create_repo env repo_name (f_task_id f) (f_round_no f)) (\<lambda>gh_info.
     bindE (lift (py_getitem gh_info ''html_url'')) (\<lambda>repo_url.
     bindE (run env (GitRemoteAdd (gh_token env) (gh_user env) repo_name) ws) (\<lambda>_.
     bindE (run env GitBranchMain ws) (\<lambda>_.
     bindE (run env GitPushMain ws) (\<lambda>_.
     bindE (run env GitRevParseHead ws) (\<lambda>out.
     ret (repo_name, repo_url, strip out))))))))"

text \<open>
  Enabling the hosting:
  \<^verbatim>\<open>
  pages_resp = github_enable_pages(GH_USER, repo_name)
  print("Pages API status:", pages_resp.status_code if pages_resp is not None else None)
  pages_url = f"https://{GH_USER}.github.io/{repo_name}/"
  \<close>
\<close>

definition enable_pages_step :: "env \<Rightarrow> repo \<Rightarrow> unit io" where
  "enable_pages_step env repo_name =
     bindE (github_enable_pages env (gh_user env) repo_name) (\<lambda>pages_resp.
     py_print (LPagesStatus (fst pages_resp)))"

text \<open>Everything before the poller is called.\<close>

definition before_polling :: "env \<Rightarrow> json \<Rightarrow> (fields \<times> repo \<times> json \<times> string) io" where
  "before_polling env task_json =
     bindE (local_stages env task_json) (\<lambda>(f, ws).
     bindE (create_and_push env f ws) (\<lambda>(repo_name, repo_url, commit_sha).
     bindE (enable_pages_step env repo_name) (\<lambda>_.
     ret (f, repo_name, repo_url, commit_sha))))"

text \<open>
  The notification and the end:
  \<^verbatim>\<open>
  payload = {"email": email, "task": task_id, "round": round_no, "nonce": nonce,
             "repo_url": repo_url, "commit_sha": commit_sha, "pages_url": pages_url}
  if evaluation_url:
      success = notify_with_backoff(evaluation_url, payload)
      if not success:
          print("Failed to notify evaluation_url after retries.")
  print("Finished task:", task_id, "repo:", repo_url)
  # Optional cleanup: shutil.rmtree(ws)
  \<close>
\<close>

definition make_payload :: "env \<Rightarrow> fields \<Rightarrow> repo \<Rightarrow> json \<Rightarrow> string \<Rightarrow> payload" where
  "make_payload env f repo_name repo_url commit_sha =
     \<lparr>p_email = f_email f, p_task = f_task_id f, p_round = f_round_no f, p_nonce = f_nonce f,
      p_repo_url = repo_url, p_commit_sha = commit_sha,
      p_pages_url = HostedPages (gh_user env) repo_name\<rparr>"

definition notify_stage :: "env \<Rightarrow> json \<Rightarrow> payload \<Rightarrow> unit io" where
  "notify_stage env evaluation_url pl =
     (if truthy evaluation_url
      then bindE (notify_with_backoff env evaluation_url pl 8)
             (\<lambda>success. if \<not> success then py_print LNotifyFailed else ret ())
      else ret ())"

definition finish :: "env \<Rightarrow> fields \<Rightarrow> repo \<Rightarrow> json \<Rightarrow> string \<Rightarrow> unit io" where
  "finish env f repo_name repo_url commit_sha =
     bindE (notify_stage env (f_evaluation_url f) (make_payload env f repo_name repo_url commit_sha))
       (\<lambda>_. py_print (LFinished (f_task_id f) repo_url))"

text \<open>
  The polling, with the default poll interval, and what follows it:
  \<^verbatim>\<open>
  ok = wait_for_pages(pages_url, timeout=180)
  if not ok:
      print("Warning: pages did not become available in time:", pages_url)
  \<close>
\<close>

definition poll_and_finish ::
  "env \<Rightarrow> fields \<Rightarrow> repo \<Rightarrow> json \<Rightarrow> string \<Rightarrow> world \<Rightarrow> ((error + unit) \<times> world) option" where
  "poll_and_finish env f repo_name repo_url commit_sha w =
     (case wait_for_pages env (HostedPages (gh_user env) repo_name) 180 2 w of
        None \<Rightarrow> None
      | Some (Inl e, w1) \<Rightarrow> Some (Inl e, w1)
      | Some (Inr ok, w1) \<Rightarrow>
          Some (finish env f repo_name repo_url commit_sha
                  (if ok then w1
                   else log_line (LPagesWarning (HostedPages (gh_user env) repo_name)) w1)))"

definition process_body :: "env \<Rightarrow> json \<Rightarrow> world \<Rightarrow> ((error + unit) \<times> world) option" where
  "process_body env task_json w =
     (case before_polling env task_json w of
        (Inl e, w1) \<Rightarrow> Some (Inl e, w1)
      | (Inr (f, repo_name, repo_url, commit_sha), w1) \<Rightarrow>
          poll_and_finish env f repo_name repo_url commit_sha w1)"

text \<open>
  \<^verbatim>\<open>
  def process_task(task_json):
      try:
          ...
      except Exception as e:
          print("Error in process_task:", e)
  \<close>
\<close>

definition process_task :: "env \<Rightarrow> json \<Rightarrow> world \<Rightarrow> world option" where
  "process_task env task_json w =
     (case process_body env task_json w of
        None \<Rightarrow> None
      | Some (Inl e, w') \<Rightarrow> Some (log_line (LError e) w')
      | Some (Inr u, w') \<Rightarrow> Some w')"

section \<open>The two endpoints\<close>

text \<open>
  The keys of \<^verbatim>\<open>secrets_map\<close>: a hashable JSON value, up to Python's equality (True is the
  key 1). A list or a dict is not hashable.
\<close>

datatype key = KNone | KInt int | KStr string

fun key_of :: "json \<Rightarrow> error + key" where
  "key_of JNull = Inr KNone"
| "key_of (JBool b) = Inr (KInt (if b then 1 else 0))"
| "key_of (JInt n) = Inr (KInt n)"
| "key_of (JStr s) = Inr (KStr s)"
| "key_of _ = Inl TypeError"

text \<open>
  The server's state: the mapping in memory and the mapping last written to
  \<^verbatim>\<open>student_secrets.json\<close>.
\<close>

record server =
  secrets_map :: "key \<rightharpoonup> json"
  secrets_file :: "key \<rightharpoonup> json"

text \<open>A reply \<^verbatim>\<open>jsonify({field: message}), status\<close>.\<close>

datatype reply = Reply int string string

definition required :: "string list" where
  "required = [''email'', ''secret'', ''task'', ''round'', ''nonce'', ''brief'', ''evaluation_url'']"

text \<open>The first required key that is missing, if any.\<close>

fun first_missing :: "json \<Rightarrow> string list \<Rightarrow> error + string option" where
  "first_missing data [] = Inr None"
| "first_missing data (k # ks) =
     (case py_contains data k of
        Inl e \<Rightarrow> Inl e
      | Inr present \<Rightarrow> if \<not> present then Inr (Some k) else first_missing data ks)"

text \<open>
  \<^verbatim>\<open>
  def api_task():
      try:
          data = request.get_json(force=True)
      except Exception:
          return jsonify({"error": "invalid json"}), 400
      required = [...]
      for k in required:
          if k not in data:
              return jsonify({"error": f"missing {k}"}), 400
      email = data["email"]
      secret = data["secret"]
      stored = secrets_map.get(email)
      if stored is None or stored != secret:
          return jsonify({"error": "invalid secret"}), 400
      executor.submit(process_task, data)
      return jsonify({"status": "accepted"}), 200
  \<close>
  The body is \<open>None\<close> when it is not JSON. The result is the reply and the task handed to
  the executor, if any; an exception that escapes is the framework's status 500.
\<close>

definition api_task :: "server \<Rightarrow> json option \<Rightarrow> error + reply \<times> json option" where
  "api_task st body =
     (case body of
        None \<Rightarrow> Inr (Reply 400 ''error'' ''invalid json'', None)
      | Some data \<Rightarrow>
          (case first_missing data required of
             Inl e \<Rightarrow> Inl e
           | Inr (Some k) \<Rightarrow> Inr (Reply 400 ''error'' (''missing '' @ k), None)
           | Inr None \<Rightarrow>
               (case py_getitem data ''email'' of
                  Inl e \<Rightarrow> Inl e
                | Inr email \<Rightarrow>
                    (case py_getitem data ''secret'' of
                       Inl e \<Rightarrow> Inl e
                     | Inr secret \<Rightarrow>
                         (case key_of email of
                            Inl e \<Rightarrow> Inl e
                          | Inr k \<Rightarrow>
                              (case secrets_map st k of
                                 None \<Rightarrow> Inr (Reply 400 ''error'' ''invalid secret'', None)
                               | Some stored \<Rightarrow>
                                   if stored = JNull \<or> \<not> py_eq stored secret
                                   then Inr (Reply 400 ''error'' ''invalid secret'', None)
                                   else Inr (Reply 200 ''status'' ''accepted'', Some data)))))))"

text \<open>
  \<^verbatim>\<open>
  def admin_add_secret():
      body = request.get_json(force=True)
      email = body.get("email")
      secret = body.get("secret")
      if not email or not secret:
          return jsonify({"error": "need email & secret"}), 400
      secrets_map[email] = secret
      save_secrets_map(secrets_map)
      return jsonify({"status": "saved"}), 200
  \<close>
  \<open>save_ok\<close> says whether writing the file succeeds this time.
\<close>

definition admin_add_secret :: "bool \<Rightarrow> server \<Rightarrow> json option \<Rightarrow> (error + reply) \<times> server" where
  "admin_add_secret save_ok st body =
     (case body of
        None \<Rightarrow> (Inl BadRequest, st)
      | Some b \<Rightarrow>
          (case py_get b ''email'' JNull of
             Inl e \<Rightarrow> (Inl e, st)
           | Inr email \<Rightarrow>
               (case py_get b ''secret'' JNull of
                  Inl e \<Rightarrow> (Inl e, st)
                | Inr secret \<Rightarrow>
                    if \<not> truthy email \<or> \<not> truthy secret
                    then (Inr (Reply 400 ''error'' ''need email & secret''), st)
                    else
                      (case key_of email of
                         Inl e \<Rightarrow> (Inl e, st)
                       | Inr k \<Rightarrow>
                           (let st' = st\<lparr>secrets_map := (secrets_map st)(k \<mapsto> secret)\<rparr> in
                            if save_ok
                            then (Inr (Reply 200 ''status'' ''saved''),
                                  st'\<lparr>secrets_file := secrets_map st'\<rparr>)
                            else (Inl OSError, st'))))))"

text \<open>Administrative calls one after the other.\<close>

fun admin_calls :: "server \<Rightarrow> (bool \<times> json option) list \<Rightarrow> (error + reply) list \<times> server" where
  "admin_calls st [] = ([], st)"
| "admin_calls st ((save_ok, body) # rest) =
     (case admin_add_secret save_ok st body of
        (r, st') \<Rightarrow> (case admin_calls st' rest of (rs, st'') \<Rightarrow> (r # rs, st'')))"

section \<open>What a step may do\<close>

text \<open>
  \<open>keeps_files w w'\<close>: every directory of \<open>w\<close> is still there in \<open>w'\<close>, with at least the
  files it had. \<open>extends P w w'\<close>: \<open>w'\<close> is \<open>w\<close> after some more events, all of which
  satisfy \<open>P\<close>, and nothing was deleted.
\<close>

definition keeps_files :: "world \<Rightarrow> world \<Rightarrow> bool" where
  "keeps_files w w' =
     (\<forall>ws files. dirs w ws = Some files \<longrightarrow>
        (\<exists>files'. dirs w' ws = Some files' \<and> dom files \<subseteq> dom files'))"

definition extends :: "(event \<Rightarrow> bool) \<Rightarrow> world \<Rightarrow> world \<Rightarrow> bool" where
  "extends P w w' =
     ((\<exists>es. trace w' = trace w @ es \<and> list_all P es) \<and> keeps_files w w')"

definition only_emits :: "(event \<Rightarrow> bool) \<Rightarrow> 'a io \<Rightarrow> bool" where
  "only_emits P m = (\<forall>w. extends P w (snd (m w)))"

fun is_run :: "event \<Rightarrow> bool" where
  "is_run (Run cmd cwd) = True"
| "is_run _ = False"

fun is_notify :: "event \<Rightarrow> bool" where
  "is_notify (Http POST (Callback u) b) = True"
| "is_notify _ = False"

fun is_local :: "event \<Rightarrow> bool" where
  "is_local (Http m u b) = False"
| "is_local (Sleep d) = False"
| "is_local _ = True"

fun is_fs :: "event \<Rightarrow> bool" where
  "is_fs (Mkdtemp t) = True"
| "is_fs (WriteFile ws n) = True"
| "is_fs _ = False"

subsection \<open>The files of a workspace\<close>

definition listing :: "world \<Rightarrow> string \<Rightarrow> string set" where
  "listing w ws = (case dirs w ws of None \<Rightarrow> {} | Some files \<Rightarrow> dom files)"

definition name_of :: "json \<Rightarrow> string" where
  "name_of att = (case py_getitem att ''name'' of Inr (JStr n) \<Rightarrow> n | _ \<Rightarrow> [])"

definition generated_names :: "string set" where
  "generated_names = {''index.html'', ''README.md'', ''LICENSE''}"

text \<open>\<open>same_dirs m\<close>: the step \<open>m\<close> leaves every directory and every file as it was.\<close>

definition same_dirs :: "'a io \<Rightarrow> bool" where
  "same_dirs m = (\<forall>w. dirs (snd (m w)) = dirs w)"

section \<open>Concrete worlds\<close>

text \<open>
  An empty world at time 0, and an environment in which the configuration is set,
  commands and file writes succeed, and the HTTP outcomes and latencies are given.
\<close>

definition world0 :: world where
  "world0 = \<lparr>clock = 0, trace = [], stdout = [], http_calls = 0, proc_calls = 0,
              fs_calls = 0, uuid_calls = 0, dirs = Map.empty\<rparr>"

definition env_with :: "(nat \<Rightarrow> http_outcome) \<Rightarrow> (nat \<Rightarrow> nat) \<Rightarrow> env" where
  "env_with outcomes latency =
     \<lparr>gh_token = Some ''t0k'', gh_user = Some ''alice'', utc_year = 2025,
      int_of_str = (\<lambda>s. None), http_result = outcomes, http_latency = latency,
      proc_result = (\<lambda>k. Some ''c0ffee''), mkdtemp_result = (\<lambda>k. Some ''/tmp/task-1-x''),
      write_ok = (\<lambda>k. True), uuid_hex = (\<lambda>k. ''0123456789abcdef'')\<rparr>"

definition payload0 :: payload where
  "payload0 = \<lparr>p_email = JStr ''a@b.c'', p_task = JStr ''t1'', p_round = 1, p_nonce = JStr ''n'',
                p_repo_url = JStr ''https://github.com/alice/t1-012345'', p_commit_sha = ''c0ffee'',
                p_pages_url = HostedPages (Some ''alice'') (Repo (JStr ''t1'') ''012345'')\<rparr>"

text \<open>A task as the intake hands it over, and one attachment.\<close>

definition task_with :: "json \<Rightarrow> json \<Rightarrow> json" where
  "task_with attachments evaluation_url =
     JObj [(''email'', JStr ''a@b.c''), (''secret'', JStr ''s3cret''), (''task'', JStr ''t1''),
           (''round'', JInt 1), (''nonce'', JStr ''n0''), (''brief'', JStr ''demo''),
           (''evaluation_url'', evaluation_url), (''attachments'', attachments)]"

definition attachment :: "string \<Rightarrow> string \<Rightarrow> json" where
  "attachment name data_uri = JObj [(''name'', JStr name), (''url'', JStr data_uri)]"

text \<open>The answer of the repository API to a successful creation.\<close>

definition created :: http_outcome where
  "created = Resp 201 (Some (JObj [(''html_url'', JStr ''https://github.com/alice/t1-012345'')]))"

text \<open>The errors the decoding of a payload can raise.\<close>

definition is_decode_error :: "error \<Rightarrow> bool" where
  "is_decode_error e =
     (e = ValueError ''Invalid data URI'' \<or>
      e = ValueError ''string argument should contain only ASCII characters'' \<or>
      e = BinasciiError)"

text \<open>A server that knows one submitter.\<close>

definition server0 :: server where
  "server0 = \<lparr>secrets_map = [KStr ''a@b.c'' \<mapsto> JStr ''s3cret''],
              secrets_file = [KStr ''a@b.c'' \<mapsto> JStr ''s3cret'']\<rparr>"

section \<open>Properties of the notifier\<close>

lemma notify_loop_failed_attempt:
  assumes "\<not> delivered (http_result env (http_calls w))" and "0 \<le> d"
  shows "\<exists>w2. notify_loop env u pl (Suc n) a d w =
                notify_loop env u pl n (a + 1) (min (d * 2) 60) w2 \<and>
              http_calls w2 = Suc (http_calls w) \<and>
              trace w2 = trace w @ failed_round u pl d"
proof -
  define w1 where "w1 = snd (http_request env POST (Callback u) (Notification pl) w)"
  have calls: "http_calls w1 = Suc (http_calls w)"
    and tr: "trace w1 = trace w @ [Http POST (Callback u) (Notification pl)]"
    by (simp_all add: w1_def http_request_def Let_def split: http_outcome.split)
  obtain m where step:
    "notify_loop env u pl (Suc n) a d w =
       bindE (py_sleep d) (\<lambda>_. notify_loop env u pl n (a + 1) (min (d * 2) 60)) (log_line m w1)"
    using assms(1)
    by (cases "http_result env (http_calls w)")
       (auto simp: notify_loop.simps w1_def http_request_def Let_def)
  define w2 where "w2 = (log_line m w1)\<lparr>clock := clock (log_line m w1) + d,
                                        trace := trace (log_line m w1) @ [Sleep d]\<rparr>"
  have "notify_loop env u pl (Suc n) a d w =
          notify_loop env u pl n (a + 1) (min (d * 2) 60) w2"
    unfolding step using assms(2) by (simp add: bindE_def py_sleep_def w2_def)
  moreover have "http_calls w2 = Suc (http_calls w)"
    and "trace w2 = trace w @ failed_round u pl d"
    by (simp_all add: w2_def log_line_def calls tr failed_round_def)
  ultimately show ?thesis by blast
qed

lemma notify_loop_delivered_attempt:
  assumes "delivered (http_result env (http_calls w))"
  shows "\<exists>w'. notify_loop env u pl (Suc n) a d w = (Inr True, w') \<and>
              http_calls w' = Suc (http_calls w) \<and>
              trace w' = trace w @ [Http POST (Callback u) (Notification pl)]"
  using assms
  by (cases "http_result env (http_calls w)")
     (auto simp: notify_loop.simps http_request_def Let_def log_line_def)

lemma notify_loop_all_fail:
  "\<forall>j<n. \<not> delivered (http_result env (http_calls w + j)) \<Longrightarrow> 0 \<le> d \<Longrightarrow>
   \<exists>w'. notify_loop env u pl n a d w = (Inr False, w') \<and>
        trace w' = trace w @ concat (map (failed_round u pl) (delays d n)) \<and>
        http_calls w' = http_calls w + n"
proof (induction n arbitrary: a d w)
  case 0
  then show ?case by simp
next
  case (Suc n)
  have "\<not> delivered (http_result env (http_calls w))"
    using Suc.prems(1) by (metis add.right_neutral zero_less_Suc)
  then obtain w2 where step:
    "notify_loop env u pl (Suc n) a d w = notify_loop env u pl n (a + 1) (min (d * 2) 60) w2"
    and calls2: "http_calls w2 = Suc (http_calls w)"
    and tr2: "trace w2 = trace w @ failed_round u pl d"
    using notify_loop_failed_attempt [OF _ Suc.prems(2)] by blast
  have "\<forall>j<n. \<not> delivered (http_result env (http_calls w2 + j))"
    using Suc.prems(1) calls2 by (metis Suc_less_eq add_Suc_right add_Suc_shift)
  moreover have "0 \<le> min (d * 2) 60" using Suc.prems(2) by simp
  ultimately obtain w' where
    "notify_loop env u pl n (a + 1) (min (d * 2) 60) w2 = (Inr False, w')"
    "trace w' = trace w2 @ concat (map (failed_round u pl) (delays (min (d * 2) 60) n))"
    "http_calls w' = http_calls w2 + n"
    using Suc.IH by blast
  then show ?case
    unfolding step by (simp add: calls2 tr2)
qed

lemma notify_loop_first_success:
  "\<forall>j<m. \<not> delivered (http_result env (http_calls w + j)) \<Longrightarrow>
   delivered (http_result env (http_calls w + m)) \<Longrightarrow> m < n \<Longrightarrow> 0 \<le> d \<Longrightarrow>
   \<exists>w'. notify_loop env u pl n a d w = (Inr True, w') \<and>
        trace w' = trace w @ concat (map (failed_round u pl) (delays d m)) @
                     [Http POST (Callback u) (Notification pl)] \<and>
        http_calls w' = http_calls w + Suc m"
proof (induction m arbitrary: n a d w)
  case 0
  then obtain n' where n: "n = Suc n'" by (cases n) auto
  show ?case
    using notify_loop_delivered_attempt [of env w u pl n' a d] "0.prems"(2)
    by (auto simp: n)
next
  case (Suc m)
  then obtain n' where n: "n = Suc n'" and m: "m < n'" by (cases n) auto
  have "\<not> delivered (http_result env (http_calls w))"
    using Suc.prems(1) by (metis add.right_neutral zero_less_Suc)
  then obtain w2 where step:
    "notify_loop env u pl (Suc n') a d w = notify_loop env u pl n' (a + 1) (min (d * 2) 60) w2"
    and calls2: "http_calls w2 = Suc (http_calls w)"
    and tr2: "trace w2 = trace w @ failed_round u pl d"
    using notify_loop_failed_attempt [OF _ Suc.prems(4)] by blast
  have "\<forall>j<m. \<not> delivered (http_result env (http_calls w2 + j))"
    using Suc.prems(1) calls2 by (metis Suc_less_eq add_Suc_right add_Suc_shift)
  moreover have "delivered (http_result env (http_calls w2 + m))"
    using Suc.prems(2) calls2 by simp
  moreover have "0 \<le> min (d * 2) 60" using Suc.prems(4) by simp
  ultimately obtain w' where
    "notify_loop env u pl n' (a + 1) (min (d * 2) 60) w2 = (Inr True, w')"
    "trace w' = trace w2 @ concat (map (failed_round u pl) (delays (min (d * 2) 60) m)) @
                  [Http POST (Callback u) (Notification pl)]"
    "http_calls w' = http_calls w2 + Suc m"
    using Suc.IH [OF _ _ m] by blast
  then show ?case
    unfolding n step by (simp add: calls2 tr2)
qed

lemma length_delays: "length (delays d n) = n"
  by (induction n arbitrary: d) auto

lemma sleeps_failed_rounds: "sleeps (concat (map (failed_round u pl) ds)) = ds"
  by (induction ds) (auto simp: sleeps_def failed_round_def)

lemma posts_failed_rounds:
  "length (filter is_http (concat (map (failed_round u pl) ds))) = length ds"
  by (induction ds) (auto simp: failed_round_def)

lemma delays_default: "delays 1 8 = [1, 2, 4, 8, 16, 32, 60, 60]"
  by (simp add: numeral_eq_Suc)

lemma delivered_iff: "delivered r \<longleftrightarrow> (\<exists>doc. r = Resp 200 doc)"
  by (cases r) auto

text \<open>
  C1. Against a callback whose every attempt fails (any status but 200, or a transport
  exception), \<^verbatim>\<open>notify_with_backoff\<close> returns False after exactly \<open>max_attempts\<close> POSTs.
  Each POST is followed by one sleep, the last one too, and nothing follows that sleep:
  the delays start at 1, double, and are capped at 60. With the default budget of 8
  the POSTs are 8 and the sleeps are 1, 2, 4, 8, 16, 32, 60, 60.
\<close>

theorem notify_with_backoff_always_failing:
  assumes "\<forall>k doc. http_result env k \<noteq> Resp 200 doc"
  shows "\<exists>w'. notify_with_backoff env u pl max_attempts w = (Inr False, w') \<and>
           new_events w w' = concat (map (failed_round u pl) (delays 1 (nat max_attempts))) \<and>
           length (filter is_http (new_events w w')) = nat max_attempts \<and>
           sleeps (new_events w w') = delays 1 (nat max_attempts) \<and>
           (max_attempts = 8 \<longrightarrow>
              sleeps (new_events w w') = [1, 2, 4, 8, 16, 32, 60, 60])"
proof -
  have "\<forall>j<nat max_attempts. \<not> delivered (http_result env (http_calls w + j))"
    using assms by (simp add: delivered_iff)
  then obtain w' where r: "notify_loop env u pl (nat max_attempts) 0 1 w = (Inr False, w')"
    and tr: "trace w' = trace w @ concat (map (failed_round u pl) (delays 1 (nat max_attempts)))"
    using notify_loop_all_fail [of "nat max_attempts" env w 1 u pl 0] by auto
  have ev: "new_events w w' = concat (map (failed_round u pl) (delays 1 (nat max_attempts)))"
    by (simp add: new_events_def tr)
  have sl: "sleeps (new_events w w') = delays 1 (nat max_attempts)"
    by (simp only: ev sleeps_failed_rounds)
  have ps: "length (filter is_http (new_events w w')) = nat max_attempts"
    by (simp only: ev posts_failed_rounds length_delays)
  have d8: "max_attempts = 8 \<longrightarrow> sleeps (new_events w w') = [1, 2, 4, 8, 16, 32, 60, 60]"
    by (auto simp: sl delays_default)
  show ?thesis
    unfolding notify_with_backoff_def using r ev sl ps d8 by blast
qed

theorem notify_with_backoff_always_failing_witness:
  "(\<forall>k doc. http_result (env_with (\<lambda>k. if even k then Resp 503 None else ConnFail) (\<lambda>k. 0)) k
              \<noteq> Resp 200 doc) \<and>
   (\<exists>w'. notify_with_backoff (env_with (\<lambda>k. if even k then Resp 503 None else ConnFail) (\<lambda>k. 0))
            (JStr ''http://cb'') payload0 8 world0 = (Inr False, w') \<and>
         length (filter is_http (new_events world0 w')) = 8 \<and>
         sleeps (new_events world0 w') = [1, 2, 4, 8, 16, 32, 60, 60])"
proof -
  have h: "\<forall>k doc. http_result (env_with (\<lambda>k. if even k then Resp 503 None else ConnFail) (\<lambda>k. 0)) k
              \<noteq> Resp 200 doc"
    by (simp add: env_with_def)
  show ?thesis
    using h notify_with_backoff_always_failing [OF h, of "JStr ''http://cb''" payload0 8 world0]
    by auto
qed

text \<open>
  C6. When the callback first answers with status 200 on attempt k, with k within the
  budget, \<^verbatim>\<open>notify_with_backoff\<close> returns True after exactly k POSTs: each of the k - 1
  failed attempts (any other status, or a transport exception) is followed by its sleep,
  and the successful POST is the last event, with no sleep and no attempt after it.
\<close>

theorem notify_with_backoff_first_success:
  assumes "1 \<le> k" and "int k \<le> max_attempts"
    and "\<forall>j<k - 1. \<forall>doc. http_result env (http_calls w + j) \<noteq> Resp 200 doc"
    and "\<exists>doc. http_result env (http_calls w + (k - 1)) = Resp 200 doc"
  shows "\<exists>w'. notify_with_backoff env u pl max_attempts w = (Inr True, w') \<and>
           new_events w w' = concat (map (failed_round u pl) (delays 1 (k - 1))) @
                               [Http POST (Callback u) (Notification pl)] \<and>
           length (filter is_http (new_events w w')) = k \<and>
           http_calls w' = http_calls w + k"
proof -
  have f: "\<forall>j<k - 1. \<not> delivered (http_result env (http_calls w + j))"
    using assms(3) by (simp add: delivered_iff)
  have d: "delivered (http_result env (http_calls w + (k - 1)))"
    using assms(4) by (simp add: delivered_iff)
  have lt: "k - 1 < nat max_attempts" using assms(1,2) by linarith
  obtain w' where r: "notify_loop env u pl (nat max_attempts) 0 1 w = (Inr True, w')"
    and tr: "trace w' = trace w @ concat (map (failed_round u pl) (delays 1 (k - 1))) @
                          [Http POST (Callback u) (Notification pl)]"
    and calls: "http_calls w' = http_calls w + Suc (k - 1)"
    using notify_loop_first_success [OF f d lt, of 1 u pl 0] by auto
  have ev: "new_events w w' = concat (map (failed_round u pl) (delays 1 (k - 1))) @
                               [Http POST (Callback u) (Notification pl)]"
    by (simp add: new_events_def tr)
  have ps: "length (filter is_http (new_events w w')) = k"
    using assms(1) by (simp add: ev posts_failed_rounds length_delays)
  have "http_calls w' = http_calls w + k" using calls assms(1) by simp
  then show ?thesis
    unfolding notify_with_backoff_def using r ev ps by blast
qed

theorem notify_with_backoff_first_success_witness:
  "(1::nat) \<le> 3 \<and> int 3 \<le> 8 \<and>
   http_result (env_with (\<lambda>k. if k < 2 then Resp 500 None else Resp 200 None) (\<lambda>k. 0))
     (http_calls world0 + 0) = Resp 500 None \<and>
   http_result (env_with (\<lambda>k. if k < 2 then Resp 500 None else Resp 200 None) (\<lambda>k. 0))
     (http_calls world0 + 1) = Resp 500 None \<and>
   http_result (env_with (\<lambda>k. if k < 2 then Resp 500 None else Resp 200 None) (\<lambda>k. 0))
     (http_calls world0 + 2) = Resp 200 None \<and>
   (\<exists>w'. notify_with_backoff (env_with (\<lambda>k. if k < 2 then Resp 500 None else Resp 200 None)
              (\<lambda>k. 0)) (JStr ''http://cb'') payload0 8 world0 = (Inr True, w') \<and>
         new_events world0 w' =
           [Http POST (Callback (JStr ''http://cb'')) (Notification payload0), Sleep 1,
            Http POST (Callback (JStr ''http://cb'')) (Notification payload0), Sleep 2,
            Http POST (Callback (JStr ''http://cb'')) (Notification payload0)] \<and>
         http_calls w' = 3)"
proof -
  let ?env = "env_with (\<lambda>k. if k < 2 then Resp 500 None else Resp 200 None) (\<lambda>k. 0)"
  have a: "(1::nat) \<le> 3" and b: "int 3 \<le> 8" by simp_all
  have c: "\<forall>j<3 - 1. \<forall>doc. http_result ?env (http_calls world0 + j) \<noteq> Resp 200 doc"
    by (simp add: env_with_def world0_def)
  have d: "\<exists>doc. http_result ?env (http_calls world0 + (3 - 1)) = Resp 200 doc"
    by (simp add: env_with_def world0_def)
  have e: "delays 1 2 = [1, 2]" by (simp add: numeral_eq_Suc)
  have z: "http_calls world0 = 0" by (simp add: world0_def)
  have "?env = ?env" ..
  then show ?thesis
    using notify_with_backoff_first_success [OF a b c d, of "JStr ''http://cb''" payload0]
    by (auto simp: e z failed_round_def env_with_def)
qed

section \<open>Properties of the poller\<close>

lemma wait_loop_failed_probe:
  assumes "clock w < dl" and "\<not> delivered (http_result env (http_calls w))" and "0 \<le> p"
  shows "wait_loop env u dl p w = wait_loop env u dl p (probe_round env u p w)"
proof -
  have "snd (py_sleep p (snd (http_request env GET u NoBody w))) = probe_round env u p w"
    using assms(3)
    by (cases "http_result env (http_calls w)")
       (auto simp: http_request_def py_sleep_def probe_round_def Let_def intro!: world.equality)
  then show ?thesis
    using assms
    by (subst wait_loop.simps, cases "http_result env (http_calls w)")
       (auto simp: http_request_def py_sleep_def Let_def)
qed

lemma wait_loop_expired: "\<not> clock w < dl \<Longrightarrow> wait_loop env u dl p w = Some (Inr False, w)"
  by (subst wait_loop.simps) simp

lemma wait_loop_never_success:
  assumes nev: "\<forall>k. \<not> delivered (http_result env k)" and p: "0 < p"
  shows "\<exists>w'. wait_loop env u dl p w = Some (Inr False, w') \<and> dl \<le> clock w' \<and>
           (\<not> clock w < dl \<longrightarrow> w' = w) \<and>
           (clock w < dl \<longrightarrow>
              (\<forall>L. (\<forall>k. int (http_latency env k) \<le> L) \<longrightarrow> clock w' < dl + L + p))"
proof (induction "nat (dl - clock w)" arbitrary: w rule: less_induct)
  case less
  show ?case
  proof (cases "clock w < dl")
    case False
    then show ?thesis by (simp add: wait_loop_expired)
  next
    case True
    let ?w2 = "probe_round env u p w"
    have step: "wait_loop env u dl p w = wait_loop env u dl p ?w2"
      using wait_loop_failed_probe [OF True] nev p by simp
    have c2: "clock ?w2 = clock w + int (http_latency env (http_calls w)) + p"
      by (simp add: probe_round_def)
    have "nat (dl - clock ?w2) < nat (dl - clock w)"
      using True p c2 by simp
    from less [OF this] obtain w' where r: "wait_loop env u dl p ?w2 = Some (Inr False, w')"
      and ge: "dl \<le> clock w'"
      and same: "\<not> clock ?w2 < dl \<longrightarrow> w' = ?w2"
      and bound: "clock ?w2 < dl \<longrightarrow>
                    (\<forall>L. (\<forall>k. int (http_latency env k) \<le> L) \<longrightarrow> clock w' < dl + L + p)"
      by blast
    have "\<forall>L. (\<forall>k. int (http_latency env k) \<le> L) \<longrightarrow> clock w' < dl + L + p"
    proof (intro allI impI)
      fix L assume L: "\<forall>k. int (http_latency env k) \<le> L"
      show "clock w' < dl + L + p"
      proof (cases "clock ?w2 < dl")
        case True
        then show ?thesis using bound L by blast
      next
        case False
        then have "w' = ?w2" using same by blast
        moreover have "int (http_latency env (http_calls w)) \<le> L" using L by blast
        ultimately show ?thesis using c2 \<open>clock w < dl\<close> by simp
      qed
    qed
    then show ?thesis using r ge True by (simp add: step)
  qed
qed

lemma wait_loop_false_after_deadline:
  assumes "wait_loop env u dl p w = Some r"
  shows "fst r = Inr False \<longrightarrow> dl \<le> clock (snd r)"
  by (rule wait_loop.raw_induct
        [where P = "\<lambda>env u dl p w r. fst r = Inr False \<longrightarrow> dl \<le> clock (snd r)", OF _ assms])
     (auto split: if_splits prod.splits sum.splits)

text \<open>
  C4, as amended. \<^verbatim>\<open>wait_for_pages\<close> never returns False before the deadline (entry time
  plus timeout): whenever it returns False the clock has reached the deadline. Against
  a probe endpoint that never answers 200, and with a positive poll interval, it does
  return False; it returns at the first test of the loop at or after the deadline, which
  is later than the deadline by less than one probe latency plus one poll interval.
\<close>

theorem wait_for_pages_not_before_deadline:
  "(\<forall>w'. wait_for_pages env u timeout p w = Some (Inr False, w') \<longrightarrow>
          clock w + timeout \<le> clock w') \<and>
   ((\<forall>k doc. http_result env k \<noteq> Resp 200 doc) \<and> 0 < p \<longrightarrow>
      (\<exists>w'. wait_for_pages env u timeout p w = Some (Inr False, w') \<and>
            clock w + timeout \<le> clock w' \<and>
            (0 < timeout \<longrightarrow>
               (\<forall>L. (\<forall>k. int (http_latency env k) \<le> L) \<longrightarrow>
                    clock w' < clock w + timeout + L + p))))"
proof (intro conjI allI impI)
  fix w'
  assume "wait_for_pages env u timeout p w = Some (Inr False, w')"
  then show "clock w + timeout \<le> clock w'"
    using wait_loop_false_after_deadline [of env u "clock w + timeout" p w "(Inr False, w')"]
    by (simp add: wait_for_pages_def)
next
  assume a: "(\<forall>k doc. http_result env k \<noteq> Resp 200 doc) \<and> 0 < p"
  then have "\<forall>k. \<not> delivered (http_result env k)" by (simp add: delivered_iff)
  from wait_loop_never_success [OF this, of p u "clock w + timeout" w] a
  show "\<exists>w'. wait_for_pages env u timeout p w = Some (Inr False, w') \<and>
            clock w + timeout \<le> clock w' \<and>
            (0 < timeout \<longrightarrow>
               (\<forall>L. (\<forall>k. int (http_latency env k) \<le> L) \<longrightarrow>
                    clock w' < clock w + timeout + L + p))"
    by (auto simp: wait_for_pages_def)
qed

theorem wait_for_pages_not_before_deadline_witness:
  "\<exists>w'. wait_for_pages (env_with (\<lambda>k. Resp 404 None) (\<lambda>k. 1)) (HostedPages None (Repo JNull []))
           7 2 world0 = Some (Inr False, w') \<and>
        clock world0 + 7 \<le> clock w' \<and> clock w' < clock world0 + 7 + 1 + 2"
proof -
  let ?env = "env_with (\<lambda>k. Resp 404 None) (\<lambda>k. 1)"
  have a: "(\<forall>k doc. http_result ?env k \<noteq> Resp 200 doc) \<and> (0::int) < 2"
    by (simp add: env_with_def)
  have l: "\<forall>k. int (http_latency ?env k) \<le> 1" by (simp add: env_with_def)
  from a wait_for_pages_not_before_deadline
        [of ?env "HostedPages None (Repo JNull [])" 7 2 world0]
  obtain w' where r: "wait_for_pages ?env (HostedPages None (Repo JNull [])) 7 2 world0 =
                        Some (Inr False, w')"
    and ge: "clock world0 + 7 \<le> clock w'"
    and b: "\<forall>L. (\<forall>k. int (http_latency ?env k) \<le> L) \<longrightarrow> clock w' < clock world0 + 7 + L + 2"
    by auto
  from b l have "clock w' < clock world0 + 7 + 1 + 2" by blast
  with r ge show ?thesis by blast
qed

text \<open>
  The claim as stated fails: with the default timeout 180 and poll interval 2, against
  probes that answer 404 after 5 time units each, the tests of the loop fall at times
  0, 7, 14, ..., 175, 182, so \<^verbatim>\<open>wait_for_pages\<close> returns False at time 182, not at the
  boundary 180.
\<close>

theorem wait_for_pages_exact_boundary_counterexample:
  "\<exists>w'. wait_for_pages (env_with (\<lambda>k. Resp 404 None) (\<lambda>k. 5)) (HostedPages None (Repo JNull []))
           180 2 world0 = Some (Inr False, w') \<and>
        clock world0 + 180 = 180 \<and> clock w' = 182"
  by (simp add: wait_for_pages_def world0_def wait_loop.simps http_request_def py_sleep_def
        env_with_def Let_def)

text \<open>
  C9. With a timeout that is zero or negative \<^verbatim>\<open>wait_for_pages\<close> returns False at once and
  leaves the world as it was: no probe is issued and no sleep is taken, whatever the
  environment and the poll interval.
\<close>

theorem wait_for_pages_nonpositive_timeout:
  assumes "timeout \<le> 0"
  shows "wait_for_pages env u timeout p w = Some (Inr False, w) \<and>
         new_events w w = [] \<and> http_calls w = http_calls w"
  using assms by (simp add: wait_for_pages_def wait_loop_expired new_events_def)

theorem wait_for_pages_nonpositive_timeout_witness:
  "wait_for_pages (env_with (\<lambda>k. Resp 200 None) (\<lambda>k. 0)) (HostedPages None (Repo JNull []))
     0 2 world0 = Some (Inr False, world0) \<and>
   wait_for_pages (env_with (\<lambda>k. Resp 200 None) (\<lambda>k. 0)) (HostedPages None (Repo JNull []))
     (- 3) (- 1) world0 = Some (Inr False, world0)"
proof -
  have a: "(0::int) \<le> 0" and b: "(- 3::int) \<le> 0" by simp_all
  show ?thesis
    using wait_for_pages_nonpositive_timeout [OF a] wait_for_pages_nonpositive_timeout [OF b]
    by blast
qed

section \<open>What each stage may do\<close>

lemma keeps_files_refl: "keeps_files w w"
  by (simp add: keeps_files_def)

lemma keeps_files_trans: "keeps_files w w1 \<Longrightarrow> keeps_files w1 w2 \<Longrightarrow> keeps_files w w2"
  unfolding keeps_files_def by (meson subset_trans)

lemma keeps_files_same: "dirs w' = dirs w \<Longrightarrow> keeps_files w w'"
  by (simp add: keeps_files_def)

lemma extends_refl: "extends P w w"
  by (simp add: extends_def keeps_files_refl)

lemma extends_trans: "extends P w w1 \<Longrightarrow> extends P w1 w2 \<Longrightarrow> extends P w w2"
  unfolding extends_def using keeps_files_trans by fastforce

lemma extends_mono: "extends P w w' \<Longrightarrow> (\<And>e. P e \<Longrightarrow> Q e) \<Longrightarrow> extends Q w w'"
  unfolding extends_def by (auto simp: list_all_iff)

lemma extends_log: "extends P w w' \<Longrightarrow> extends P w (log_line m w')"
  by (simp add: extends_def log_line_def keeps_files_def)

lemma extends_event:
  "P e \<Longrightarrow> trace w' = trace w @ [e] \<Longrightarrow> keeps_files w w' \<Longrightarrow> extends P w w'"
  by (simp add: extends_def)

lemma only_emits_ret: "only_emits P (ret x)"
  by (simp add: only_emits_def ret_def extends_refl)

lemma only_emits_raise: "only_emits P (py_raise e)"
  by (simp add: only_emits_def py_raise_def extends_refl)

lemma only_emits_lift: "only_emits P (lift r)"
  by (simp add: only_emits_def lift_def extends_refl)

lemma only_emits_print: "only_emits P (py_print m)"
  by (simp add: only_emits_def py_print_def extends_log extends_refl)

lemma only_emits_bind:
  assumes "only_emits P m" and "\<And>x. only_emits P (f x)"
  shows "only_emits P (bindE m f)"
proof -
  have "extends P w (snd (bindE m f w))" for w
  proof (cases "m w")
    case (Pair r w1)
    have 1: "extends P w w1" using assms(1) Pair by (metis only_emits_def snd_conv)
    show ?thesis
    proof (cases r)
      case (Inl e)
      then show ?thesis using 1 Pair by (simp add: bindE_def)
    next
      case (Inr x)
      have "extends P w1 (snd (f x w1))" using assms(2) by (simp add: only_emits_def)
      then show ?thesis using 1 Pair Inr extends_trans by (fastforce simp: bindE_def)
    qed
  qed
  then show ?thesis by (simp add: only_emits_def)
qed

lemma only_emits_mono: "only_emits P m \<Longrightarrow> (\<And>e. P e \<Longrightarrow> Q e) \<Longrightarrow> only_emits Q m"
  unfolding only_emits_def using extends_mono by blast

lemma only_emits_http: "P (Http m u b) \<Longrightarrow> only_emits P (http_request env m u b)"
  by (auto simp: only_emits_def http_request_def Let_def keeps_files_def
        intro!: extends_event split: http_outcome.split)

lemma only_emits_sleep: "P (Sleep d) \<Longrightarrow> only_emits P (py_sleep d)"
  by (auto simp: only_emits_def py_sleep_def keeps_files_def extends_refl intro!: extends_event)

lemma only_emits_run: "P (Run cmd cwd) \<Longrightarrow> only_emits P (run env cmd cwd)"
  by (auto simp: only_emits_def run_def Let_def log_line_def keeps_files_def
        intro!: extends_event split: option.split)

lemma only_emits_mkdtemp: "P (Mkdtemp t) \<Longrightarrow> only_emits P (mkdtemp env t)"
  by (auto simp: only_emits_def mkdtemp_def Let_def keeps_files_def
        intro!: extends_event split: option.split)

lemma only_emits_write_file: "P (WriteFile ws n) \<Longrightarrow> only_emits P (write_file env ws n c)"
  by (auto simp: only_emits_def write_file_def Let_def keeps_files_def
        intro!: extends_event split: option.split)

lemmas only_emits_intros =
  only_emits_ret only_emits_raise only_emits_lift only_emits_print only_emits_bind
  only_emits_http only_emits_sleep only_emits_run only_emits_mkdtemp only_emits_write_file

lemma only_emits_read_fields: "only_emits P (read_fields env t)"
  unfolding read_fields_def by (intro only_emits_intros)

lemma only_emits_write_attachment:
  "(\<And>n. P (WriteFile ws n)) \<Longrightarrow> only_emits P (write_attachment env ws a)"
  unfolding write_attachment_def decode_data_uri_to_file_def
  by (auto intro!: only_emits_intros split: json.split)

lemma only_emits_write_attachments:
  "(\<And>n. P (WriteFile ws n)) \<Longrightarrow> only_emits P (write_attachments env ws atts)"
  by (induction atts) (auto intro!: only_emits_intros only_emits_write_attachment)

lemma only_emits_workspace_stage:
  "(\<And>e. is_fs e \<Longrightarrow> P e) \<Longrightarrow> only_emits P (workspace_stage env tid atts)"
  unfolding workspace_stage_def
  by (intro only_emits_intros only_emits_write_attachments) auto

lemma only_emits_write_files:
  "(\<And>n. P (WriteFile ws n)) \<Longrightarrow> only_emits P (write_files env ws files)"
  by (induction files) (auto intro!: only_emits_intros)

lemma only_emits_build_stage:
  "(\<And>e. is_fs e \<Longrightarrow> P e) \<Longrightarrow> only_emits P (build_stage env ws brief atts)"
  unfolding build_stage_def write_mit_license_def
  by (intro only_emits_intros only_emits_write_files) auto

lemma only_emits_publish_stage:
  "(\<And>e. is_run e \<Longrightarrow> P e) \<Longrightarrow> only_emits P (publish_stage env ws email tid r)"
  unfolding publish_stage_def
  by (auto intro!: only_emits_intros split: json.split)

lemma is_fs_local: "is_fs e \<Longrightarrow> is_local e"
  by (cases e) auto

lemma is_run_local: "is_run e \<Longrightarrow> is_local e"
  by (cases e) auto

lemma only_emits_local_stages:
  "(\<And>e. is_local e \<Longrightarrow> P e) \<Longrightarrow> only_emits P (local_stages env t)"
  unfolding local_stages_def
  by (intro only_emits_intros only_emits_read_fields only_emits_workspace_stage
        only_emits_build_stage only_emits_publish_stage)
     (auto dest: is_fs_local is_run_local)

lemma only_emits_new_repo_name: "only_emits P (new_repo_name env t)"
  by (simp add: only_emits_def new_repo_name_def extends_def keeps_files_def)

lemma only_emits_create_and_push:
  "(\<And>e. \<not> is_notify e \<Longrightarrow> P e) \<Longrightarrow> only_emits P (create_and_push env f ws)"
  unfolding create_and_push_def github_create_repo_def
  by (auto intro!: only_emits_intros only_emits_new_repo_name split: option.split)

lemma only_emits_enable_pages_step:
  "(\<And>e. \<not> is_notify e \<Longrightarrow> P e) \<Longrightarrow> only_emits P (enable_pages_step env r)"
  unfolding enable_pages_step_def github_enable_pages_def
  by (auto intro!: only_emits_intros)

lemma not_notify_local: "is_local e \<Longrightarrow> \<not> is_notify e"
  by (cases e) auto

lemma only_emits_before_polling:
  "(\<And>e. \<not> is_notify e \<Longrightarrow> P e) \<Longrightarrow> only_emits P (before_polling env t)"
  unfolding before_polling_def
  by (auto intro!: only_emits_intros only_emits_local_stages only_emits_create_and_push
        only_emits_enable_pages_step dest: not_notify_local)

lemma only_emits_notify_loop:
  "0 \<le> d \<Longrightarrow> (\<And>x. P (Sleep x)) \<Longrightarrow> P (Http POST (Callback u) (Notification pl)) \<Longrightarrow>
   only_emits P (notify_loop env u pl n a d)"
proof (induction n arbitrary: a d)
  case 0
  then show ?case by (simp add: only_emits_def extends_refl)
next
  case (Suc n)
  have rest: "only_emits P (bindE (py_sleep d)
                (\<lambda>_. notify_loop env u pl n (a + 1) (min (d * 2) 60)))"
    using Suc by (auto intro!: only_emits_intros)
  have h: "extends P w (snd (http_request env POST (Callback u) (Notification pl) w))" for w
    using only_emits_http [of P POST "Callback u" "Notification pl" env] Suc.prems(3)
    by (simp add: only_emits_def)
  have "extends P w (snd (notify_loop env u pl (Suc n) a d w))" for w
  proof (cases "http_request env POST (Callback u) (Notification pl) w")
    case (Pair r w1)
    then have 1: "extends P w w1" using h [of w] by simp
    have 2: "extends P w (log_line m w1)" for m using 1 by (rule extends_log)
    have 3: "extends P (log_line m w1) (snd (bindE (py_sleep d)
                (\<lambda>_. notify_loop env u pl n (a + 1) (min (d * 2) 60)) (log_line m w1)))" for m
      using rest by (simp add: only_emits_def)
    have 4: "extends P w (snd (bindE (py_sleep d)
                (\<lambda>_. notify_loop env u pl n (a + 1) (min (d * 2) 60)) (log_line m w1)))" for m
      using extends_trans [OF 2 3] .
    show ?thesis
    proof (cases r)
      case (Inl e)
      then show ?thesis using Pair 4 by (simp add: notify_loop.simps)
    next
      case (Inr sd)
      then show ?thesis
        using Pair 2 4 by (cases sd) (simp add: notify_loop.simps Let_def)
    qed
  qed
  then show ?case by (simp add: only_emits_def)
qed

lemma probe_round_extends:
  "extends (\<lambda>e. e = Http GET u NoBody \<or> e = Sleep p) w
     (snd (bindE (http_request env GET u NoBody) (\<lambda>_. py_sleep p) w))"
proof -
  have "only_emits (\<lambda>e. e = Http GET u NoBody \<or> e = Sleep p)
          (bindE (http_request env GET u NoBody) (\<lambda>_. py_sleep p))"
    by (auto intro!: only_emits_intros)
  then show ?thesis by (simp add: only_emits_def)
qed

lemma http_request_extends:
  "http_request env m u b w = (r, w1) \<Longrightarrow> P (Http m u b) \<Longrightarrow> extends P w w1"
  using only_emits_http [of P m u b env] by (auto simp: only_emits_def dest: spec [of _ w])

lemma py_sleep_extends: "py_sleep p w1 = (r, w2) \<Longrightarrow> P (Sleep p) \<Longrightarrow> extends P w1 w2"
  using only_emits_sleep [of P p] by (auto simp: only_emits_def dest: spec [of _ w1])

lemma wait_loop_extends:
  assumes "wait_loop env u dl p w = Some r"
  shows "extends (\<lambda>e. e = Http GET u NoBody \<or> e = Sleep p) w (snd r)"
proof (rule wait_loop.raw_induct
    [where P = "\<lambda>env u dl p w r. extends (\<lambda>e. e = Http GET u NoBody \<or> e = Sleep p) w (snd r)",
      OF _ assms])
  fix wl :: "env \<Rightarrow> url \<Rightarrow> int \<Rightarrow> int \<Rightarrow> world \<Rightarrow> ((error + bool) \<times> world) option"
  fix env u dl p w r
  assume IH: "\<And>env u dl p w r. wl env u dl p w = Some r \<Longrightarrow>
                extends (\<lambda>e. e = Http GET u NoBody \<or> e = Sleep p) w (snd r)"
  assume body: "(if clock w < dl then
        (case http_request env GET u NoBody w of
           (Inl e, w1) \<Rightarrow>
             (case py_sleep p w1 of
                (Inl e', w2) \<Rightarrow> Some (Inl e', w2)
              | (Inr u', w2) \<Rightarrow> wl env u dl p w2)
         | (Inr (status, doc), w1) \<Rightarrow>
             if status = 200 then Some (Inr True, w1)
             else (case py_sleep p w1 of
                     (Inl e, w2) \<Rightarrow> Some (Inl e, w2)
                   | (Inr u', w2) \<Rightarrow> wl env u dl p w2))
      else Some (Inr False, w)) = Some r"
  let ?P = "\<lambda>e. e = Http GET u NoBody \<or> e = Sleep p"
  obtain r1 w1 where h: "http_request env GET u NoBody w = (r1, w1)" by fastforce
  obtain r2 w2 where s: "py_sleep p w1 = (r2, w2)" by fastforce
  have e1: "extends ?P w w1" using http_request_extends [OF h] by simp
  have e2: "extends ?P w1 w2" using py_sleep_extends [OF s] by simp
  have e12: "extends ?P w w2" using e1 e2 by (rule extends_trans)
  have e3: "wl env u dl p w2 = Some r \<Longrightarrow> extends ?P w (snd r)"
    using extends_trans [OF e12] IH by blast
  show "extends ?P w (snd r)"
  proof (cases "clock w < dl")
    case False
    then show ?thesis using body by (auto simp: extends_refl)
  next
    case True
    show ?thesis
      using body True h s e1 e12 e3
      by (auto split: sum.splits if_splits)
  qed
qed

section \<open>Properties of the pipeline\<close>

lemma wait_loop_returns:
  assumes p: "0 < p"
  shows "\<exists>ok w'. wait_loop env u dl p w = Some (Inr ok, w')"
proof (induction "nat (dl - clock w)" arbitrary: w rule: less_induct)
  case less
  show ?case
  proof (cases "clock w < dl")
    case False
    then show ?thesis by (auto simp: wait_loop_expired)
  next
    case True
    show ?thesis
    proof (cases "delivered (http_result env (http_calls w))")
      case d: True
      then show ?thesis
        using True
        by (subst wait_loop.simps, cases "http_result env (http_calls w)")
           (auto simp: http_request_def Let_def)
    next
      case False
      let ?w2 = "probe_round env u p w"
      have step: "wait_loop env u dl p w = wait_loop env u dl p ?w2"
        using wait_loop_failed_probe [OF True False] p by simp
      have "nat (dl - clock ?w2) < nat (dl - clock w)"
        using True p by (simp add: probe_round_def)
      from less [OF this] show ?thesis by (simp add: step)
    qed
  qed
qed

lemma wait_loop_first_probe:
  assumes "clock w < dl" and "wait_loop env u dl p w = Some r"
  shows "\<exists>es. trace (snd r) = trace w @ Http GET u NoBody # es"
proof -
  obtain r1 w1 where h: "http_request env GET u NoBody w = (r1, w1)" by fastforce
  have t1: "trace w1 = trace w @ [Http GET u NoBody]"
    using h by (auto simp: http_request_def Let_def split: http_outcome.splits)
  obtain r2 w2 where s: "py_sleep p w1 = (r2, w2)" by fastforce
  have t2: "\<exists>es. trace w2 = trace w1 @ es"
    using s by (auto simp: py_sleep_def split: if_splits)
  have rest: "wait_loop env u dl p w2 = Some r \<Longrightarrow> \<exists>es. trace (snd r) = trace w2 @ es"
    using wait_loop_extends [of env u dl p w2 r] by (auto simp: extends_def)
  have "wait_loop env u dl p w = Some r" by fact
  then show ?thesis
    using assms(1) h s t1 t2 rest
    by (subst (asm) wait_loop.simps) (auto split: sum.splits if_splits)
qed

lemma only_emits_finish: "only_emits (\<lambda>e. True) (finish env f r u s)"
  unfolding finish_def notify_stage_def notify_with_backoff_def
  by (auto intro!: only_emits_intros only_emits_notify_loop)

lemma before_polling_extends:
  "before_polling env t w = (r, w1) \<Longrightarrow> extends (\<lambda>e. \<not> is_notify e) w w1"
  using only_emits_before_polling [of "\<lambda>e. \<not> is_notify e" env t]
  by (auto simp: only_emits_def dest: spec [of _ w])

lemma local_stages_extends:
  "local_stages env t w = (r, w1) \<Longrightarrow> extends is_local w w1"
  using only_emits_local_stages [of is_local env t]
  by (auto simp: only_emits_def dest: spec [of _ w])

lemma extends_True: "extends P w w' \<Longrightarrow> extends (\<lambda>e. True) w w'"
  by (erule extends_mono) simp

lemma poll_and_finish_extends:
  assumes "poll_and_finish env f r u s w = Some x"
  shows "extends (\<lambda>e. True) w (snd x)"
proof -
  from assms obtain y w1 where
    wl: "wait_loop env (HostedPages (gh_user env) r) (clock w + 180) 2 w = Some (y, w1)"
    by (auto simp: poll_and_finish_def wait_for_pages_def split: option.splits)
  have 1: "extends (\<lambda>e. True) w w1"
    using wait_loop_extends [OF wl] by (auto intro: extends_True)
  have 2: "extends (\<lambda>e. True) w (log_line m w1)" for m using 1 by (rule extends_log)
  have 3: "extends (\<lambda>e. True) w' (snd (finish env f r u s w'))" for w'
    using only_emits_finish by (simp add: only_emits_def)
  show ?thesis
    using assms wl 1 extends_trans [OF 1 3] extends_trans [OF 2 3]
    by (auto simp: poll_and_finish_def wait_for_pages_def split: sum.splits if_splits)
qed

lemma process_task_extends:
  assumes "process_task env t w = Some w'"
  shows "extends (\<lambda>e. True) w w'"
proof -
  obtain r w1 where b: "before_polling env t w = (r, w1)" by fastforce
  have 1: "extends (\<lambda>e. True) w w1"
    using before_polling_extends [OF b] by (rule extends_True)
  show ?thesis
  proof (cases r)
    case (Inl e)
    then show ?thesis
      using assms b 1 by (auto simp: process_task_def process_body_def extends_log)
  next
    case (Inr c)
    obtain f rn ru sha where c: "c = (f, rn, ru, sha)" by (cases c) auto
    from assms b Inr c obtain x where
      p: "poll_and_finish env f rn ru sha w1 = Some x" and
      w': "w' = (case fst x of Inl e \<Rightarrow> log_line (LError e) (snd x) | Inr v \<Rightarrow> snd x)"
      by (auto simp: process_task_def process_body_def split: option.splits sum.splits)
    have 2: "extends (\<lambda>e. True) w (snd x)"
      using extends_trans [OF 1 poll_and_finish_extends [OF p]] .
    show ?thesis
      using 2 w' by (auto simp: extends_log split: sum.splits)
  qed
qed

lemma process_task_returns: "\<exists>w'. process_task env t w = Some w'"
proof -
  obtain r w1 where b: "before_polling env t w = (r, w1)" by fastforce
  show ?thesis
  proof (cases r)
    case (Inl e)
    then show ?thesis using b by (simp add: process_task_def process_body_def)
  next
    case (Inr c)
    obtain f rn ru sha where c: "c = (f, rn, ru, sha)" by (cases c) auto
    obtain ok w2 where
      "wait_loop env (HostedPages (gh_user env) rn) (clock w1 + 180) 2 w1 = Some (Inr ok, w2)"
      using wait_loop_returns [of 2] by fastforce
    then show ?thesis
      using b Inr c
      by (auto simp: process_task_def process_body_def poll_and_finish_def wait_for_pages_def
            split: sum.splits prod.splits)
  qed
qed

lemmas eval_defs =
  local_stages_def read_fields_def workspace_stage_def build_stage_def publish_stage_def
  bindE_def lift_def ret_def py_raise_def py_print_def log_line_def task_with_def attachment_def
  env_with_def world0_def mkdtemp_def write_attachment_def write_file_def write_mit_license_def
  generate_minimal_app_def run_def Let_def str_or_def plain_name_def decode_data_uri_to_file_def

lemma a2b_base64_error: "a2b_base64 s q l p out = Inl e \<Longrightarrow> e = BinasciiError"
  by (induction s q l p out rule: a2b_base64.induct)
     (auto split: if_splits option.splits)

lemma decode_error_kind: "decode_data_uri u = Inl e \<Longrightarrow> is_decode_error e"
  by (auto simp: decode_data_uri_def b64decode_def is_decode_error_def
        split: option.splits if_splits dest: a2b_base64_error)

lemma write_attachment_rejected:
  assumes "py_getitem a ''url'' = Inr (JStr u)" and "decode_data_uri u = Inl e"
  shows "\<exists>e'. write_attachment env ws a w = (Inl e', w)"
  using assms
  by (auto simp: write_attachment_def bindE_def lift_def py_raise_def
        decode_data_uri_to_file_def split: sum.splits json.splits)

lemma write_attachment_decode_error:
  assumes "py_getitem a ''name'' = Inr (JStr n)" and "py_getitem a ''url'' = Inr (JStr u)"
    and "decode_data_uri u = Inl e"
  shows "write_attachment env ws a w = (Inl e, w)"
  using assms
  by (simp add: write_attachment_def bindE_def lift_def decode_data_uri_to_file_def)

lemma write_attachments_rejected:
  assumes "a \<in> set atts" and "py_getitem a ''url'' = Inr (JStr u)" and "decode_data_uri u = Inl e"
  shows "\<exists>e' w'. write_attachments env ws atts w = (Inl e', w')"
  using assms(1)
proof (induction atts arbitrary: w)
  case Nil
  then show ?case by simp
next
  case (Cons x atts)
  obtain r w1 where x: "write_attachment env ws x w = (r, w1)" by fastforce
  show ?case
  proof (cases r)
    case (Inl e1)
    then show ?thesis using x by (simp add: bindE_def)
  next
    case (Inr v)
    then have "x \<noteq> a"
      using x write_attachment_rejected [OF assms(2,3), of env ws w] by auto
    then have "a \<in> set atts" using Cons.prems by simp
    from Cons.IH [OF this, of w1] show ?thesis using x Inr by (simp add: bindE_def)
  qed
qed

lemma write_attachments_append:
  "write_attachments env ws (xs @ ys) w =
     bindE (write_attachments env ws xs) (\<lambda>_. write_attachments env ws ys) w"
  by (induction xs arbitrary: w) (auto simp: bindE_def ret_def split: sum.splits prod.splits)

lemma read_fields_attachments:
  "read_fields env t w = (Inr f, w0) \<Longrightarrow> py_get t ''attachments'' (JArr []) = Inr (f_attachments f)"
  by (auto simp: read_fields_def bindE_def lift_def ret_def py_print_def split: sum.splits)

lemma read_fields_extends: "read_fields env t w = (r, w0) \<Longrightarrow> extends P w w0"
  using only_emits_read_fields [of P env t] by (auto simp: only_emits_def dest: spec [of _ w])

lemma workspace_stage_extends:
  "workspace_stage env tid atts w = (r, w1) \<Longrightarrow> extends is_fs w w1"
  using only_emits_workspace_stage [of is_fs env tid atts]
  by (auto simp: only_emits_def dest: spec [of _ w])

lemma workspace_stage_rejected:
  assumes "a \<in> set atts" and "py_getitem a ''url'' = Inr (JStr u)" and "decode_data_uri u = Inl e"
  shows "\<exists>e' w'. workspace_stage env tid (JArr atts) w = (Inl e', w')"
proof -
  obtain r w1 where m: "mkdtemp env tid w = (r, w1)" by fastforce
  show ?thesis
  proof (cases r)
    case (Inl e1)
    then show ?thesis using m by (simp add: workspace_stage_def bindE_def)
  next
    case (Inr ws)
    obtain e' w' where
      "write_attachments env ws atts (log_line (LWorkspace ws) w1) = (Inl e', w')"
      using write_attachments_rejected [OF assms] by blast
    then show ?thesis
      using m Inr by (simp add: workspace_stage_def bindE_def py_print_def lift_def)
  qed
qed

lemma local_stages_rejected:
  assumes "py_get task ''attachments'' (JArr []) = Inr (JArr atts)"
    and "a \<in> set atts" and "py_getitem a ''url'' = Inr (JStr u)" and "decode_data_uri u = Inl e"
  shows "\<exists>e' w1. local_stages env task w = (Inl e', w1) \<and> extends is_fs w w1"
proof -
  obtain r w0 where rf: "read_fields env task w = (r, w0)" by fastforce
  have e0: "extends is_fs w w0" using rf by (rule read_fields_extends)
  show ?thesis
  proof (cases r)
    case (Inl e1)
    then show ?thesis using rf e0 by (auto simp: local_stages_def bindE_def)
  next
    case (Inr f)
    have "f_attachments f = JArr atts"
      using read_fields_attachments rf Inr assms(1) by fastforce
    then obtain e' w1 where
      ws: "workspace_stage env (f_task_id f) (f_attachments f) w0 = (Inl e', w1)"
      using workspace_stage_rejected [OF assms(2-4)] by metis
    have "extends is_fs w w1"
      using extends_trans [OF e0 workspace_stage_extends [OF ws]] .
    then show ?thesis using rf Inr ws by (auto simp: local_stages_def bindE_def)
  qed
qed

lemma process_task_local_failure:
  "local_stages env task w = (Inl e, w1) \<Longrightarrow>
   process_task env task w = Some (log_line (LError e) w1)"
  by (simp add: process_task_def process_body_def before_polling_def bindE_def)

subsection \<open>What the decoder rejects\<close>

lemma b64_value_pad [simp]: "b64_value CHR ''='' = None"
  by (simp add: b64_value_def)

lemma sextets_simps [simp]:
  "sextets [] = []"
  "b64_value c = None \<Longrightarrow> sextets (c # cs) = sextets cs"
  "b64_value c = Some v \<Longrightarrow> sextets (c # cs) = c # sextets cs"
  "sextets (xs @ ys) = sextets xs @ sextets ys"
  by (simp_all add: sextets_def)

lemma stops_Nil [simp]: "\<not> stops [] q pads"
  by (simp add: stops_def)

lemma stops_skip:
  assumes "c \<noteq> CHR ''=''" and "b64_value c = None"
  shows "stops (c # cs) q pads = stops cs q pads"
proof
  assume "stops (c # cs) q pads"
  then obtain p r where s: "c # cs = p @ CHR ''='' # r"
    and k: "(q + length (sextets p)) mod 4 = 3 \<or>
         ((q + length (sextets p)) mod 4 = 2 \<and>
          ((\<exists>p' m. p = p' @ CHR ''='' # m \<and> sextets m = []) \<or>
           (sextets p = [] \<and> 1 \<le> pads)))"
    unfolding stops_def by blast
  from s assms(1) obtain p2 where p: "p = c # p2" and cs: "cs = p2 @ CHR ''='' # r"
    by (cases p) auto
  have sx: "sextets p = sextets p2" using p assms(2) by simp
  have "(\<exists>p' m. p = p' @ CHR ''='' # m \<and> sextets m = []) \<Longrightarrow>
        (\<exists>p' m. p2 = p' @ CHR ''='' # m \<and> sextets m = [])"
  proof -
    assume "\<exists>p' m. p = p' @ CHR ''='' # m \<and> sextets m = []"
    then obtain p' m where pm: "p = p' @ CHR ''='' # m" and m: "sextets m = []" by blast
    from pm p assms(1) obtain p'' where "p' = c # p''" by (cases p') auto
    then have "p2 = p'' @ CHR ''='' # m" using pm p by simp
    then show ?thesis using m by blast
  qed
  then show "stops cs q pads"
    unfolding stops_def using cs k sx by metis
next
  assume "stops cs q pads"
  then obtain p r where s: "cs = p @ CHR ''='' # r"
    and k: "(q + length (sextets p)) mod 4 = 3 \<or>
         ((q + length (sextets p)) mod 4 = 2 \<and>
          ((\<exists>p' m. p = p' @ CHR ''='' # m \<and> sextets m = []) \<or>
           (sextets p = [] \<and> 1 \<le> pads)))"
    unfolding stops_def by blast
  have s': "c # cs = (c # p) @ CHR ''='' # r" using s by simp
  have sx: "sextets (c # p) = sextets p" using assms(2) by simp
  have "(\<exists>p' m. p = p' @ CHR ''='' # m \<and> sextets m = []) \<Longrightarrow>
        (\<exists>p' m. c # p = p' @ CHR ''='' # m \<and> sextets m = [])"
    by (metis append_Cons)
  then show "stops (c # cs) q pads"
    unfolding stops_def using s' k sx by metis
qed

lemma stops_sextet:
  assumes "b64_value c = Some v"
  shows "stops (c # cs) q pads = stops cs ((q + 1) mod 4) 0"
proof
  have ne: "c \<noteq> CHR ''=''" using assms by auto
  assume "stops (c # cs) q pads"
  then obtain p r where s: "c # cs = p @ CHR ''='' # r"
    and k: "(q + length (sextets p)) mod 4 = 3 \<or>
         ((q + length (sextets p)) mod 4 = 2 \<and>
          ((\<exists>p' m. p = p' @ CHR ''='' # m \<and> sextets m = []) \<or>
           (sextets p = [] \<and> 1 \<le> pads)))"
    unfolding stops_def by blast
  from s ne obtain p2 where p: "p = c # p2" and cs: "cs = p2 @ CHR ''='' # r"
    by (cases p) auto
  have sx: "sextets p = c # sextets p2" using p assms by simp
  have md: "(q + length (sextets p)) mod 4 = ((q + 1) mod 4 + length (sextets p2)) mod 4"
    unfolding sx by (simp add: mod_simps)
  have "(\<exists>p' m. p = p' @ CHR ''='' # m \<and> sextets m = []) \<Longrightarrow>
        (\<exists>p' m. p2 = p' @ CHR ''='' # m \<and> sextets m = [])"
  proof -
    assume "\<exists>p' m. p = p' @ CHR ''='' # m \<and> sextets m = []"
    then obtain p' m where pm: "p = p' @ CHR ''='' # m" and m: "sextets m = []" by blast
    from pm p ne obtain p'' where "p' = c # p''" by (cases p') auto
    then have "p2 = p'' @ CHR ''='' # m" using pm p by simp
    then show ?thesis using m by blast
  qed
  then have "((q + 1) mod 4 + length (sextets p2)) mod 4 = 3 \<or>
         (((q + 1) mod 4 + length (sextets p2)) mod 4 = 2 \<and>
          ((\<exists>p' m. p2 = p' @ CHR ''='' # m \<and> sextets m = []) \<or>
           (sextets p2 = [] \<and> 1 \<le> (0::nat))))"
    using k sx unfolding md by auto
  then show "stops cs ((q + 1) mod 4) 0"
    unfolding stops_def using cs by blast
next
  assume "stops cs ((q + 1) mod 4) 0"
  then obtain p r where s: "cs = p @ CHR ''='' # r"
    and k: "((q + 1) mod 4 + length (sextets p)) mod 4 = 3 \<or>
         (((q + 1) mod 4 + length (sextets p)) mod 4 = 2 \<and>
          (\<exists>p' m. p = p' @ CHR ''='' # m \<and> sextets m = []))"
    unfolding stops_def by auto
  have s': "c # cs = (c # p) @ CHR ''='' # r" using s by simp
  have sx: "sextets (c # p) = c # sextets p" using assms by simp
  have md: "(q + length (sextets (c # p))) mod 4 = ((q + 1) mod 4 + length (sextets p)) mod 4"
    unfolding sx by (simp add: mod_simps)
  have "(\<exists>p' m. p = p' @ CHR ''='' # m \<and> sextets m = []) \<Longrightarrow>
        (\<exists>p' m. c # p = p' @ CHR ''='' # m \<and> sextets m = [])"
    by (metis append_Cons)
  then have "(q + length (sextets (c # p))) mod 4 = 3 \<or>
         ((q + length (sextets (c # p))) mod 4 = 2 \<and>
          ((\<exists>p' m. c # p = p' @ CHR ''='' # m \<and> sextets m = []) \<or>
           (sextets (c # p) = [] \<and> 1 \<le> pads)))"
    using k unfolding md by blast
  then show "stops (c # cs) q pads"
    unfolding stops_def using s' by blast
qed

lemma stops_pad_now:
  assumes "2 \<le> q" and "q < 4" and "4 \<le> q + (pads + 1)"
  shows "stops (CHR ''='' # cs) q pads"
proof -
  have "CHR ''='' # cs = [] @ CHR ''='' # cs" by simp
  moreover have "(q + length (sextets [])) mod 4 = 3 \<or>
         ((q + length (sextets [])) mod 4 = 2 \<and>
          ((\<exists>p' m. [] = p' @ CHR ''='' # m \<and> sextets m = []) \<or>
           (sextets [] = [] \<and> 1 \<le> pads)))"
    using assms by auto
  ultimately show ?thesis unfolding stops_def by blast
qed

lemma stops_pad:
  assumes "q < 4" and "\<not> (2 \<le> q \<and> 4 \<le> q + (pads + 1))"
  shows "stops (CHR ''='' # cs) q pads = stops cs q (if 2 \<le> q then pads + 1 else pads)"
proof
  assume "stops (CHR ''='' # cs) q pads"
  then obtain p r where s: "CHR ''='' # cs = p @ CHR ''='' # r"
    and k: "(q + length (sextets p)) mod 4 = 3 \<or>
         ((q + length (sextets p)) mod 4 = 2 \<and>
          ((\<exists>p' m. p = p' @ CHR ''='' # m \<and> sextets m = []) \<or>
           (sextets p = [] \<and> 1 \<le> pads)))"
    unfolding stops_def by blast
  have "p \<noteq> []"
  proof
    assume "p = []"
    then have "q mod 4 = 3 \<or> (q mod 4 = 2 \<and> 1 \<le> pads)" using k by auto
    then show False using assms by auto
  qed
  then obtain p2 where p: "p = CHR ''='' # p2" and cs: "cs = p2 @ CHR ''='' # r"
    using s by (cases p) auto
  have sx: "sextets p = sextets p2" using p by simp
  have a: "(\<exists>p' m. p2 = p' @ CHR ''='' # m \<and> sextets m = []) \<or>
           (sextets p2 = [] \<and> 1 \<le> (if 2 \<le> q then pads + 1 else pads))"
    if k2: "(q + length (sextets p)) mod 4 = 2"
      and pm: "(\<exists>p' m. p = p' @ CHR ''='' # m \<and> sextets m = []) \<or> (sextets p = [] \<and> 1 \<le> pads)"
  proof -
    from pm show ?thesis
    proof
      assume "\<exists>p' m. p = p' @ CHR ''='' # m \<and> sextets m = []"
      then obtain p' m where pm: "p = p' @ CHR ''='' # m" and m: "sextets m = []" by blast
      show ?thesis
      proof (cases p')
        case Nil
        then have "p2 = m" using pm p by simp
        then have e: "sextets p2 = []" using m by simp
        then have "q mod 4 = 2" using k2 sx by simp
        then have "2 \<le> q" using assms(1) by auto
        then show ?thesis using e by simp
      next
        case (Cons x p'')
        then have "p2 = p'' @ CHR ''='' # m" using pm p by simp
        then show ?thesis using m by blast
      qed
    next
      assume "sextets p = [] \<and> 1 \<le> pads"
      then show ?thesis using sx by auto
    qed
  qed
  have "(q + length (sextets p2)) mod 4 = 3 \<or>
         ((q + length (sextets p2)) mod 4 = 2 \<and>
          ((\<exists>p' m. p2 = p' @ CHR ''='' # m \<and> sextets m = []) \<or>
           (sextets p2 = [] \<and> 1 \<le> (if 2 \<le> q then pads + 1 else pads))))"
    using k a unfolding sx by blast
  then show "stops cs q (if 2 \<le> q then pads + 1 else pads)"
    unfolding stops_def using cs by blast
next
  assume "stops cs q (if 2 \<le> q then pads + 1 else pads)"
  then obtain p r where s: "cs = p @ CHR ''='' # r"
    and k: "(q + length (sextets p)) mod 4 = 3 \<or>
         ((q + length (sextets p)) mod 4 = 2 \<and>
          ((\<exists>p' m. p = p' @ CHR ''='' # m \<and> sextets m = []) \<or>
           (sextets p = [] \<and> 1 \<le> (if 2 \<le> q then pads + 1 else pads))))"
    unfolding stops_def by blast
  have s': "CHR ''='' # cs = (CHR ''='' # p) @ CHR ''='' # r" using s by simp
  have sx: "sextets (CHR ''='' # p) = sextets p" by simp
  have a: "\<exists>p' m. CHR ''='' # p = p' @ CHR ''='' # m \<and> sextets m = []"
    if "(\<exists>p' m. p = p' @ CHR ''='' # m \<and> sextets m = []) \<or> sextets p = []"
    using that
  proof
    assume "\<exists>p' m. p = p' @ CHR ''='' # m \<and> sextets m = []"
    then show ?thesis by (metis append_Cons)
  next
    assume "sextets p = []"
    then show ?thesis by (metis append_Nil)
  qed
  have "(q + length (sextets (CHR ''='' # p))) mod 4 = 3 \<or>
         ((q + length (sextets (CHR ''='' # p))) mod 4 = 2 \<and>
          ((\<exists>p' m. CHR ''='' # p = p' @ CHR ''='' # m \<and> sextets m = []) \<or>
           (sextets (CHR ''='' # p) = [] \<and> 1 \<le> pads)))"
    using k a unfolding sx by blast
  then show "stops (CHR ''='' # cs) q pads"
    unfolding stops_def using s' by blast
qed

lemma a2b_base64_accepts:
  "q < 4 \<Longrightarrow>
   (\<exists>out'. a2b_base64 s q l pads out = Inr out') \<longleftrightarrow>
     stops s q pads \<or> (q + length (sextets s)) mod 4 = 0"
proof (induction s q l pads out rule: a2b_base64.induct)
  case (1 q l pads out)
  then show ?case by auto
next
  case (2 c cs q l pads out)
  show ?case
  proof (cases "c = CHR ''=''")
    case True
    show ?thesis
    proof (cases "2 \<le> q \<and> 4 \<le> q + (pads + 1)")
      case now: True
      have "stops (CHR ''='' # cs) q pads"
        using stops_pad_now [of q pads cs] now "2.prems" by blast
      then show ?thesis using True now by simp
    next
      case False
      have "(\<exists>out'. a2b_base64 cs q l (if 2 \<le> q then pads + 1 else pads) out = Inr out') \<longleftrightarrow>
              stops cs q (if 2 \<le> q then pads + 1 else pads) \<or> (q + length (sextets cs)) mod 4 = 0"
        using "2.IH"(1) [OF True False "2.prems"] .
      then show ?thesis
        using True False stops_pad [OF "2.prems" False, of cs] by (cases "2 \<le> q") auto
    qed
  next
    case False
    show ?thesis
    proof (cases "b64_value c")
      case None
      then show ?thesis
        using False "2.IH"(2) [OF False None "2.prems"] stops_skip [OF False None, of cs q pads] by simp
    next
      case (Some v)
      consider "q = 0" | "q = 1" | "q = 2" | "q = 3" using "2.prems" by linarith
      then show ?thesis
      proof cases
        case 1
        have e: "a2b_base64 (c # cs) q l pads out = a2b_base64 cs 1 v 0 out"
          using False Some 1 by simp
        have "(q + 1) mod 4 = 1" using 1 by simp
        then have st: "stops (c # cs) q pads = stops cs 1 0"
          using stops_sextet [OF Some, of cs q pads] by (simp only:)
        have md: "(q + length (sextets (c # cs))) mod 4 = (1 + length (sextets cs)) mod 4"
          using Some 1 by simp
        have ih: "(\<exists>out'. a2b_base64 cs 1 v 0 out = Inr out') =
                    (stops cs 1 0 \<or> (1 + length (sextets cs)) mod 4 = 0)"
          by (rule "2.IH"(3) [OF False Some]) (use 1 in simp_all)
        show ?thesis by (simp only: e st md ih)
      next
        case 2
        have e: "a2b_base64 (c # cs) q l pads out = a2b_base64 cs 2 (v mod 16) 0 (out @ [l * 4 + v div 16])"
          using False Some 2 by simp
        have "(q + 1) mod 4 = 2" using 2 by simp
        then have st: "stops (c # cs) q pads = stops cs 2 0"
          using stops_sextet [OF Some, of cs q pads] by (simp only:)
        have md: "(q + length (sextets (c # cs))) mod 4 = (2 + length (sextets cs)) mod 4"
          using Some 2 by simp
        have ih: "(\<exists>out'. a2b_base64 cs 2 (v mod 16) 0 (out @ [l * 4 + v div 16]) = Inr out') =
                    (stops cs 2 0 \<or> (2 + length (sextets cs)) mod 4 = 0)"
          by (rule "2.IH"(4) [OF False Some]) (use 2 in simp_all)
        show ?thesis by (simp only: e st md ih)
      next
        case 3
        have e: "a2b_base64 (c # cs) q l pads out = a2b_base64 cs 3 (v mod 4) 0 (out @ [l * 16 + v div 4])"
          using False Some 3 by simp
        have "(q + 1) mod 4 = 3" using 3 by simp
        then have st: "stops (c # cs) q pads = stops cs 3 0"
          using stops_sextet [OF Some, of cs q pads] by (simp only:)
        have md: "(q + length (sextets (c # cs))) mod 4 = (3 + length (sextets cs)) mod 4"
          using Some 3 by simp
        have ih: "(\<exists>out'. a2b_base64 cs 3 (v mod 4) 0 (out @ [l * 16 + v div 4]) = Inr out') =
                    (stops cs 3 0 \<or> (3 + length (sextets cs)) mod 4 = 0)"
          by (rule "2.IH"(5) [OF False Some]) (use 3 in simp_all)
        show ?thesis by (simp only: e st md ih)
      next
        case 4
        have e: "a2b_base64 (c # cs) q l pads out = a2b_base64 cs 0 0 0 (out @ [l * 64 + v])"
          using False Some 4 by simp
        have "(q + 1) mod 4 = 0" using 4 by simp
        then have st: "stops (c # cs) q pads = stops cs 0 0"
          using stops_sextet [OF Some, of cs q pads] by (simp only:)
        have md: "(q + length (sextets (c # cs))) mod 4 = (0 + length (sextets cs)) mod 4"
          using Some 4 by simp
        have ih: "(\<exists>out'. a2b_base64 cs 0 0 0 (out @ [l * 64 + v]) = Inr out') =
                    (stops cs 0 0 \<or> (0 + length (sextets cs)) mod 4 = 0)"
          by (rule "2.IH"(6) [OF False Some]) (use 4 in simp_all)
        show ?thesis by (simp only: e st md ih)
      qed
    qed
  qed
qed

lemma stops_start: "stops b 0 0 = padding_ends b"
  by (simp add: stops_def padding_ends_def)

lemma a2b_base64_rejects:
  "(a2b_base64 b 0 0 0 [] = Inl BinasciiError) =
     (length (sextets b) mod 4 \<noteq> 0 \<and> \<not> padding_ends b)"
proof -
  have "(\<exists>out'. a2b_base64 b 0 0 0 [] = Inr out') = (padding_ends b \<or> length (sextets b) mod 4 = 0)"
    using a2b_base64_accepts [of 0 b 0 0 "[]"] by (simp add: stops_start)
  moreover have "(a2b_base64 b 0 0 0 [] = Inl BinasciiError) = (\<not> (\<exists>out'. a2b_base64 b 0 0 0 [] = Inr out'))"
    using a2b_base64_error [of b 0 0 0 "[]"] by (cases "a2b_base64 b 0 0 0 []") auto
  ultimately show ?thesis by auto
qed

lemma after_marker_here:
  "prefix '';base64,'' (c # cs) \<Longrightarrow> after_marker (c # cs) = Some (drop 8 (c # cs))"
  by (simp only: after_marker.simps(2) if_True)

lemma after_marker_later:
  "\<not> prefix '';base64,'' (c # cs) \<Longrightarrow> after_marker (c # cs) = after_marker cs"
  by (simp only: after_marker.simps(2) if_False)

lemma after_marker_None:
  "(after_marker s = None) = (\<forall>mt b. s \<noteq> mt @ '';base64,'' @ b)"
proof (induction s)
  case Nil
  then show ?case by simp
next
  case (Cons c cs)
  show ?case
  proof (cases "prefix '';base64,'' (c # cs)")
    case True
    then obtain zs where z: "c # cs = [] @ '';base64,'' @ zs" by (auto simp: prefix_def)
    then show ?thesis using after_marker_here [OF True] by (metis option.distinct(1))
  next
    case False
    have "(\<forall>mt b. c # cs \<noteq> mt @ '';base64,'' @ b) = (\<forall>mt b. cs \<noteq> mt @ '';base64,'' @ b)"
    proof
      assume a: "\<forall>mt b. c # cs \<noteq> mt @ '';base64,'' @ b"
      show "\<forall>mt b. cs \<noteq> mt @ '';base64,'' @ b"
      proof (intro allI notI)
        fix mt b assume "cs = mt @ '';base64,'' @ b"
        then have "c # cs = (c # mt) @ '';base64,'' @ b" by simp
        then show False using a by blast
      qed
    next
      assume a: "\<forall>mt b. cs \<noteq> mt @ '';base64,'' @ b"
      show "\<forall>mt b. c # cs \<noteq> mt @ '';base64,'' @ b"
      proof (intro allI notI)
        fix mt b assume e: "c # cs = mt @ '';base64,'' @ b"
        show False
        proof (cases mt)
          case Nil
          then have "prefix '';base64,'' (c # cs)" using e by (simp add: prefix_def)
          then show False using False by simp
        next
          case (Cons x mt')
          then have "cs = mt' @ '';base64,'' @ b" using e by simp
          then show False using a by blast
        qed
      qed
    qed
    then show ?thesis using after_marker_later [OF False] Cons.IH by (simp only:)
  qed
qed

lemma after_marker_first:
  "after_marker s = Some b \<Longrightarrow>
   \<exists>mt. s = mt @ '';base64,'' @ b \<and>
        (\<forall>mt' b'. s = mt' @ '';base64,'' @ b' \<longrightarrow> length mt \<le> length mt')"
proof (induction s)
  case Nil
  then show ?case by simp
next
  case (Cons c cs)
  show ?case
  proof (cases "prefix '';base64,'' (c # cs)")
    case True
    then obtain zs where z: "c # cs = '';base64,'' @ zs" by (auto simp: prefix_def)
    then have "drop 8 (c # cs) = zs" by simp
    then have "b = zs" using Cons.prems after_marker_here [OF True] by simp
    then have "c # cs = [] @ '';base64,'' @ b" using z by simp
    moreover have "\<forall>mt' b'. c # cs = mt' @ '';base64,'' @ b' \<longrightarrow> length ([] :: string) \<le> length mt'"
      by simp
    ultimately show ?thesis by blast
  next
    case False
    then have "after_marker cs = Some b" using Cons.prems after_marker_later by metis
    then obtain mt where m: "cs = mt @ '';base64,'' @ b"
      and f: "\<forall>mt' b'. cs = mt' @ '';base64,'' @ b' \<longrightarrow> length mt \<le> length mt'"
      using Cons.IH by blast
    have 1: "c # cs = (c # mt) @ '';base64,'' @ b" using m by simp
    have 2: "length (c # mt) \<le> length mt'" if e: "c # cs = mt' @ '';base64,'' @ b'" for mt' b'
    proof (cases mt')
      case Nil
      then have "prefix '';base64,'' (c # cs)" using e by (simp add: prefix_def)
      then show ?thesis using False by simp
    next
      case (Cons x mt'')
      then have "cs = mt'' @ '';base64,'' @ b'" using e by simp
      then have "length mt \<le> length mt''" using f by blast
      then show ?thesis using Cons by simp
    qed
    show ?thesis using 1 2 by blast
  qed
qed

lemma data_uri_body_Some:
  assumes "data_uri_body u = Some b"
  shows "\<exists>mt. u = ''data:'' @ mt @ '';base64,'' @ b \<and>
           (\<forall>mt' b'. u = ''data:'' @ mt' @ '';base64,'' @ b' \<longrightarrow> length mt \<le> length mt')"
proof -
  from assms have p: "prefix ''data:'' u" and m: "after_marker (drop 5 u) = Some b"
    by (auto simp: data_uri_body_def split: if_splits)
  from p obtain zs where z: "u = ''data:'' @ zs" by (auto simp: prefix_def)
  then have "drop 5 u = zs" by simp
  then obtain mt where 1: "zs = mt @ '';base64,'' @ b"
    and 2: "\<forall>mt' b'. zs = mt' @ '';base64,'' @ b' \<longrightarrow> length mt \<le> length mt'"
    using m after_marker_first by metis
  have "u = ''data:'' @ mt @ '';base64,'' @ b" using z 1 by simp
  moreover have "\<forall>mt' b'. u = ''data:'' @ mt' @ '';base64,'' @ b' \<longrightarrow> length mt \<le> length mt'"
    using 2 unfolding z by simp
  ultimately show ?thesis by blast
qed

lemma data_uri_body_None:
  "(data_uri_body u = None) = (\<forall>mt b. u \<noteq> ''data:'' @ mt @ '';base64,'' @ b)"
proof (cases "prefix ''data:'' u")
  case True
  then obtain zs where z: "u = ''data:'' @ zs" by (auto simp: prefix_def)
  then have d: "drop 5 u = zs" by simp
  have "(\<forall>mt b. u \<noteq> ''data:'' @ mt @ '';base64,'' @ b) = (\<forall>mt b. zs \<noteq> mt @ '';base64,'' @ b)"
    unfolding z by simp
  then show ?thesis using True d after_marker_None [of zs] by (simp add: data_uri_body_def)
next
  case False
  have "u \<noteq> ''data:'' @ mt @ '';base64,'' @ b" for mt b
    using False by (auto simp: prefix_def)
  then show ?thesis using False by (simp add: data_uri_body_def)
qed

lemma decode_data_uri_invalid:
  "(decode_data_uri u = Inl (ValueError ''Invalid data URI'')) =
     (\<forall>mt b. u \<noteq> ''data:'' @ mt @ '';base64,'' @ b)"
proof (cases "data_uri_body u")
  case None
  then show ?thesis using data_uri_body_None [of u] by (simp add: decode_data_uri_def)
next
  case (Some b)
  have "b64decode b \<noteq> Inl (ValueError ''Invalid data URI'')"
    using a2b_base64_error [of b 0 0 0 "[]"] by (auto simp: b64decode_def)
  then show ?thesis using Some data_uri_body_None [of u] by (simp add: decode_data_uri_def)
qed

lemma decode_data_uri_non_ascii:
  assumes "data_uri_body u = Some b"
  shows "(decode_data_uri u = Inl (ValueError ''string argument should contain only ASCII characters''))
           = (\<exists>c\<in>set b. 128 \<le> (of_char c :: nat))"
  using assms a2b_base64_error [of b 0 0 0 "[]"]
  by (auto simp: decode_data_uri_def b64decode_def list_ex_iff)

lemma decode_data_uri_incomplete:
  assumes "data_uri_body u = Some b" and "\<forall>c\<in>set b. (of_char c :: nat) < 128"
  shows "(decode_data_uri u = Inl BinasciiError) =
           (length (sextets b) mod 4 \<noteq> 0 \<and> \<not> padding_ends b)"
proof -
  have "\<not> list_ex (\<lambda>c. 128 \<le> (of_char c :: nat)) b"
    using assms(2) by (auto simp: list_ex_iff)
  then have "decode_data_uri u = a2b_base64 b 0 0 0 []"
    using assms(1) by (simp add: decode_data_uri_def b64decode_def)
  then show ?thesis using a2b_base64_rejects by simp
qed

text \<open>
  C2, as amended. When some attachment of the task carries a payload that the decoder
  rejects, \<^verbatim>\<open>process_task\<close> ends by printing an error, and all it did before is make the
  directory and write files: no git command ran, so no commit exists. When the steps
  before that attachment succeed, the error is the decoder's own and the bad attachment
  is not written. The decoder rejects exactly these payloads. With \<^verbatim>\<open>Invalid data URI\<close>,
  a payload that is not \<^verbatim>\<open>data:\<close>, any text, \<^verbatim>\<open>;base64,\<close> and a body. Otherwise the body is
  what follows the first \<^verbatim>\<open>;base64,\<close>: it is rejected for a character outside ASCII, and
  an ASCII body is rejected exactly when the number of its characters of the alphabet
  is not a multiple of four and no padding ends it. Every other character outside the
  alphabet is skipped.
\<close>

theorem rejected_attachment_aborts_before_git:
  "(py_get task ''attachments'' (JArr []) = Inr (JArr atts) \<and> a \<in> set atts \<and>
    py_getitem a ''url'' = Inr (JStr u) \<and> decode_data_uri u = Inl e \<longrightarrow>
      (\<exists>e' w1. process_task env task w = Some (log_line (LError e') w1) \<and>
               (\<exists>es. trace w1 = trace w @ es \<and> list_all is_fs es))) \<and>
   (read_fields env task w = (Inr f, w0) \<and> f_attachments f = JArr (pre @ a # post) \<and>
    mkdtemp env (f_task_id f) w0 = (Inr ws, w1) \<and>
    write_attachments env ws pre (log_line (LWorkspace ws) w1) = (Inr (), w2) \<and>
    py_getitem a ''name'' = Inr (JStr n) \<and>
    py_getitem a ''url'' = Inr (JStr u) \<and> decode_data_uri u = Inl e \<longrightarrow>
      process_task env task w = Some (log_line (LError e) w2) \<and> is_decode_error e) \<and>
   ((decode_data_uri v = Inl (ValueError ''Invalid data URI'')) =
      (\<forall>mt b. v \<noteq> ''data:'' @ mt @ '';base64,'' @ b)) \<and>
   (data_uri_body v = Some b \<longrightarrow>
      (\<exists>mt. v = ''data:'' @ mt @ '';base64,'' @ b \<and>
            (\<forall>mt' b'. v = ''data:'' @ mt' @ '';base64,'' @ b' \<longrightarrow> length mt \<le> length mt')) \<and>
      ((decode_data_uri v =
          Inl (ValueError ''string argument should contain only ASCII characters'')) =
         (\<exists>c\<in>set b. 128 \<le> (of_char c :: nat))) \<and>
      ((\<forall>c\<in>set b. (of_char c :: nat) < 128) \<longrightarrow>
         (decode_data_uri v = Inl BinasciiError) =
           (length (sextets b) mod 4 \<noteq> 0 \<and> \<not> padding_ends b)))"
proof -
  have 1: "\<exists>e' w1. process_task env task w = Some (log_line (LError e') w1) \<and>
               (\<exists>es. trace w1 = trace w @ es \<and> list_all is_fs es)"
    if "py_get task ''attachments'' (JArr []) = Inr (JArr atts) \<and> a \<in> set atts \<and>
        py_getitem a ''url'' = Inr (JStr u) \<and> decode_data_uri u = Inl e"
  proof -
    from that obtain e' w1 where "local_stages env task w = (Inl e', w1)" and "extends is_fs w w1"
      using local_stages_rejected by blast
    then show ?thesis
      using process_task_local_failure by (auto simp: extends_def)
  qed
  have 2: "process_task env task w = Some (log_line (LError e) w2) \<and> is_decode_error e"
    if h: "read_fields env task w = (Inr f, w0) \<and> f_attachments f = JArr (pre @ a # post) \<and>
      mkdtemp env (f_task_id f) w0 = (Inr ws, w1) \<and>
      write_attachments env ws pre (log_line (LWorkspace ws) w1) = (Inr (), w2) \<and>
      py_getitem a ''name'' = Inr (JStr n) \<and>
      py_getitem a ''url'' = Inr (JStr u) \<and> decode_data_uri u = Inl e"
  proof -
    have d: "is_decode_error e" using h decode_error_kind by blast
    have "write_attachment env ws a w2 = (Inl e, w2)"
      using h write_attachment_decode_error by blast
    then have "write_attachments env ws (pre @ a # post) (log_line (LWorkspace ws) w1) = (Inl e, w2)"
      using h by (simp add: write_attachments_append bindE_def)
    then have "workspace_stage env (f_task_id f) (f_attachments f) w0 = (Inl e, w2)"
      using h by (simp add: workspace_stage_def bindE_def py_print_def lift_def)
    then have "local_stages env task w = (Inl e, w2)"
      using h by (simp add: local_stages_def bindE_def)
    then show ?thesis using d process_task_local_failure by blast
  qed
  have 3: "(decode_data_uri v = Inl (ValueError ''Invalid data URI'')) =
             (\<forall>mt b. v \<noteq> ''data:'' @ mt @ '';base64,'' @ b)"
    by (rule decode_data_uri_invalid)
  have 4: "(\<exists>mt. v = ''data:'' @ mt @ '';base64,'' @ b \<and>
            (\<forall>mt' b'. v = ''data:'' @ mt' @ '';base64,'' @ b' \<longrightarrow> length mt \<le> length mt')) \<and>
      ((decode_data_uri v =
          Inl (ValueError ''string argument should contain only ASCII characters'')) =
         (\<exists>c\<in>set b. 128 \<le> (of_char c :: nat))) \<and>
      ((\<forall>c\<in>set b. (of_char c :: nat) < 128) \<longrightarrow>
         (decode_data_uri v = Inl BinasciiError) =
           (length (sextets b) mod 4 \<noteq> 0 \<and> \<not> padding_ends b))"
    if b: "data_uri_body v = Some b"
    using data_uri_body_Some [OF b] decode_data_uri_non_ascii [OF b]
      decode_data_uri_incomplete [OF b]
    by blast
  show ?thesis using 1 2 3 4 by blast
qed

lemma notify_loop_no_raise:
  "0 \<le> d \<Longrightarrow> \<exists>b w'. notify_loop env u pl n a d w = (Inr b, w')"
proof (induction n arbitrary: a d w)
  case 0
  then show ?case by auto
next
  case (Suc n)
  show ?case
  proof (cases "delivered (http_result env (http_calls w))")
    case True
    then show ?thesis using notify_loop_delivered_attempt [OF True] by blast
  next
    case False
    obtain w2 where "notify_loop env u pl (Suc n) a d w =
                       notify_loop env u pl n (a + 1) (min (d * 2) 60) w2"
      using notify_loop_failed_attempt [OF False Suc.prems] by blast
    moreover have "0 \<le> min (d * 2) 60" using Suc.prems by simp
    ultimately show ?thesis using Suc.IH by metis
  qed
qed

lemma finish_result:
  "\<exists>w1. finish env f r u s w = (Inr (), log_line (LFinished (f_task_id f) u) w1)"
proof (cases "truthy (f_evaluation_url f)")
  case False
  then show ?thesis
    by (auto simp: finish_def notify_stage_def bindE_def ret_def py_print_def)
next
  case True
  obtain b w1 where
    "notify_loop env (f_evaluation_url f) (make_payload env f r u s) (nat 8) 0 1 w = (Inr b, w1)"
    using notify_loop_no_raise [of 1] by (metis zero_le_one)
  then show ?thesis
    using True
    by (cases b)
       (auto simp: finish_def notify_stage_def notify_with_backoff_def bindE_def ret_def
          py_print_def)
qed

lemma finish_falsy:
  "\<not> truthy (f_evaluation_url f) \<Longrightarrow>
   finish env f r u s w = (Inr (), log_line (LFinished (f_task_id f) u) w)"
  by (simp add: finish_def notify_stage_def bindE_def ret_def py_print_def)

lemma process_task_completes:
  assumes b: "before_polling env t w = (Inr (f, r, u, s), w1)"
  shows "\<exists>w'. process_task env t w = Some w' \<and> extends (\<lambda>e. True) w1 w' \<and>
              stdout w' \<noteq> [] \<and> last (stdout w') = LFinished (f_task_id f) u"
proof -
  obtain ok w2 where
    wl: "wait_loop env (HostedPages (gh_user env) r) (clock w1 + 180) 2 w1 = Some (Inr ok, w2)"
    using wait_loop_returns [of 2] by fastforce
  define w3 where
    "w3 = (if ok then w2 else log_line (LPagesWarning (HostedPages (gh_user env) r)) w2)"
  obtain w4 where fin: "finish env f r u s w3 = (Inr (), log_line (LFinished (f_task_id f) u) w4)"
    using finish_result by blast
  have pf: "poll_and_finish env f r u s w1 =
              Some (Inr (), log_line (LFinished (f_task_id f) u) w4)"
    using wl fin by (simp add: poll_and_finish_def wait_for_pages_def w3_def)
  then have p: "process_task env t w = Some (log_line (LFinished (f_task_id f) u) w4)"
    using b by (simp add: process_task_def process_body_def)
  have "extends (\<lambda>e. True) w1 (log_line (LFinished (f_task_id f) u) w4)"
    using poll_and_finish_extends [OF pf] by simp
  then show ?thesis using p by (simp add: log_line_def)
qed

lemmas run_defs =
  before_polling_def create_and_push_def new_repo_name_def
  github_create_repo_def enable_pages_step_def github_enable_pages_def http_request_def
  str_truthy_def created_def strip_def is_space_def decode_data_uri_def data_uri_body_def
  b64decode_def b64_value_def

text \<open>
  The claim as stated fails: a payload whose body is \<^verbatim>\<open>!!!!\<close> is not of the declared form
  (no character of it is in the base64 alphabet), yet the lenient decoder skips the four
  characters and yields the empty byte string; the attachment is written, the commit
  is made and the task runs to its end.
\<close>

theorem lenient_base64_counterexample:
  "\<not> spec_wellformed_payload ''data:text/plain;base64,!!!!'' \<and>
   decode_data_uri ''data:text/plain;base64,!!!!'' = Inr [] \<and>
   (\<exists>w'. process_task (env_with (\<lambda>k. if k < 2 then created else Resp 200 None) (\<lambda>k. 0))
           (task_with (JArr [attachment ''a.txt'' ''data:text/plain;base64,!!!!''])
              (JStr ''http://cb'')) world0 = Some w' \<and>
         Run (GitCommit (JStr ''t1'') 1) ''/tmp/task-1-x'' \<in> set (trace w') \<and>
         last (stdout w') = LFinished (JStr ''t1'') (JStr ''https://github.com/alice/t1-012345''))"
proof (intro conjI)
  let ?env = "env_with (\<lambda>k. if k < 2 then created else Resp 200 None) (\<lambda>k. 0)"
  let ?task = "task_with (JArr [attachment ''a.txt'' ''data:text/plain;base64,!!!!''])
                 (JStr ''http://cb'')"
  show "\<not> spec_wellformed_payload ''data:text/plain;base64,!!!!''"
    by (simp add: spec_wellformed_payload_def data_uri_body_def is_base64_text_def b64_value_def)
  show "decode_data_uri ''data:text/plain;base64,!!!!'' = Inr []"
    by (simp add: decode_data_uri_def data_uri_body_def b64decode_def b64_value_def)
  have "\<exists>f r u s w1. before_polling ?env ?task world0 = (Inr (f, r, u, s), w1) \<and>
      u = JStr ''https://github.com/alice/t1-012345'' \<and> f_task_id f = JStr ''t1'' \<and>
      Run (GitCommit (JStr ''t1'') 1) ''/tmp/task-1-x'' \<in> set (trace w1)"
    by (simp add: eval_defs run_defs)
  then obtain f r u s w1 where b: "before_polling ?env ?task world0 = (Inr (f, r, u, s), w1)"
    and u: "u = JStr ''https://github.com/alice/t1-012345''" and t: "f_task_id f = JStr ''t1''"
    and c: "Run (GitCommit (JStr ''t1'') 1) ''/tmp/task-1-x'' \<in> set (trace w1)"
    by blast
  from process_task_completes [OF b] obtain w' where
    p: "process_task ?env ?task world0 = Some w'" and e: "extends (\<lambda>e. True) w1 w'"
    and l: "last (stdout w') = LFinished (f_task_id f) u"
    by blast
  have "Run (GitCommit (JStr ''t1'') 1) ''/tmp/task-1-x'' \<in> set (trace w')"
    using c e by (auto simp: extends_def)
  then show "\<exists>w'. process_task ?env ?task world0 = Some w' \<and>
         Run (GitCommit (JStr ''t1'') 1) ''/tmp/task-1-x'' \<in> set (trace w') \<and>
         last (stdout w') = LFinished (JStr ''t1'') (JStr ''https://github.com/alice/t1-012345'')"
    using p l u t by auto
qed

theorem rejected_attachment_aborts_before_git_witness:
  "(\<exists>w1. process_task (env_with (\<lambda>k. created) (\<lambda>k. 0))
           (task_with (JArr [attachment ''a.txt'' ''data:text/plain;base64,QUJD'',
                             attachment ''b.txt'' ''data:text/plain;base64,QUJ''])
              (JStr ''http://cb'')) world0 = Some (log_line (LError BinasciiError) w1) \<and>
         trace w1 = [Mkdtemp (JStr ''t1''), WriteFile ''/tmp/task-1-x'' ''a.txt'']) \<and>
   decode_data_uri ''data:text/plain;base64,QUJ'' = Inl BinasciiError \<and>
   data_uri_body ''data:text/plain;base64,QUJ'' = Some ''QUJ'' \<and>
   length (sextets ''QUJ'') mod 4 = 3 \<and> \<not> padding_ends ''QUJ'' \<and>
   decode_data_uri ''data:text/plain;base64,QQ==Q'' = Inr [65] \<and> padding_ends ''QQ==Q''"
proof -
  let ?env = "env_with (\<lambda>k. created) (\<lambda>k. 0)"
  let ?a = "attachment ''a.txt'' ''data:text/plain;base64,QUJD''"
  let ?b = "attachment ''b.txt'' ''data:text/plain;base64,QUJ''"
  let ?task = "task_with (JArr [?a, ?b]) (JStr ''http://cb'')"
  have "\<exists>f w0 w1 w2. read_fields ?env ?task world0 = (Inr f, w0) \<and>
          f_attachments f = JArr ([?a] @ ?b # []) \<and>
          mkdtemp ?env (f_task_id f) w0 = (Inr ''/tmp/task-1-x'', w1) \<and>
          write_attachments ?env ''/tmp/task-1-x'' [?a] (log_line (LWorkspace ''/tmp/task-1-x'') w1)
            = (Inr (), w2) \<and>
          trace w2 = [Mkdtemp (JStr ''t1''), WriteFile ''/tmp/task-1-x'' ''a.txt'']"
    by (simp add: eval_defs run_defs)
  then obtain f w0 w1 w2 where h: "read_fields ?env ?task world0 = (Inr f, w0)"
          "f_attachments f = JArr ([?a] @ ?b # [])"
          "mkdtemp ?env (f_task_id f) w0 = (Inr ''/tmp/task-1-x'', w1)"
          "write_attachments ?env ''/tmp/task-1-x'' [?a] (log_line (LWorkspace ''/tmp/task-1-x'') w1)
            = (Inr (), w2)"
          "trace w2 = [Mkdtemp (JStr ''t1''), WriteFile ''/tmp/task-1-x'' ''a.txt'']"
    by blast
  have n: "py_getitem ?b ''name'' = Inr (JStr ''b.txt'')"
    and u: "py_getitem ?b ''url'' = Inr (JStr ''data:text/plain;base64,QUJ'')"
    by (simp_all add: attachment_def)
  have d: "decode_data_uri ''data:text/plain;base64,QUJ'' = Inl BinasciiError"
    by (simp add: decode_data_uri_def data_uri_body_def b64decode_def b64_value_def)
  have bd: "data_uri_body ''data:text/plain;base64,QUJ'' = Some ''QUJ''"
    by (simp add: data_uri_body_def)
  have asc: "\<forall>c\<in>set ''QUJ''. (of_char c :: nat) < 128" by simp
  have sx: "length (sextets ''QUJ'') mod 4 = 3"
    by (simp add: sextets_def b64_value_def)
  note t = rejected_attachment_aborts_before_git
      [where task = ?task and a = ?b and e = BinasciiError and env = ?env and w = world0
         and f = f and ?w0.0 = w0 and pre = "[?a]" and post = "[]" and ws = "''/tmp/task-1-x''"
         and ?w1.0 = w1 and ?w2.0 = w2 and n = "''b.txt''"
         and u = "''data:text/plain;base64,QUJ''"
         and v = "''data:text/plain;base64,QUJ''" and b = "''QUJ''"]
  have p: "process_task ?env ?task world0 = Some (log_line (LError BinasciiError) w2)"
    using t h n u d by blast
  have np: "\<not> padding_ends ''QUJ''"
    using t bd asc d by blast
  have d2: "decode_data_uri ''data:text/plain;base64,QQ==Q'' = Inr [65]"
    by (simp add: decode_data_uri_def data_uri_body_def b64decode_def b64_value_def)
  have bd2: "data_uri_body ''data:text/plain;base64,QQ==Q'' = Some ''QQ==Q''"
    by (simp add: data_uri_body_def)
  have asc2: "\<forall>c\<in>set ''QQ==Q''. (of_char c :: nat) < 128" by simp
  have sx2: "length (sextets ''QQ==Q'') mod 4 \<noteq> 0"
    by (simp add: sextets_def b64_value_def)
  have pe: "padding_ends ''QQ==Q''"
    using rejected_attachment_aborts_before_git
      [where v = "''data:text/plain;base64,QQ==Q''" and b = "''QQ==Q''"] bd2 asc2 d2 sx2
    by auto
  have first: "\<exists>w1. process_task ?env ?task world0 = Some (log_line (LError BinasciiError) w1) \<and>
         trace w1 = [Mkdtemp (JStr ''t1''), WriteFile ''/tmp/task-1-x'' ''a.txt'']"
    using p h(5) by blast
  show ?thesis by (intro conjI first d bd sx np d2 pe)
qed

lemma read_fields_evaluation_url:
  "read_fields env t w = (Inr f, w0) \<Longrightarrow>
   py_get t ''evaluation_url'' JNull = Inr (f_evaluation_url f)"
  by (auto simp: read_fields_def bindE_def lift_def ret_def py_print_def split: sum.splits)

lemma before_polling_fields:
  "before_polling env t w = (Inr (f, r, u, s), w1) \<Longrightarrow> \<exists>w0. read_fields env t w = (Inr f, w0)"
  by (auto simp: before_polling_def local_stages_def bindE_def ret_def
        split: sum.splits prod.splits)

lemma process_task_early_failure:
  "before_polling env t w = (Inl e, w1) \<Longrightarrow> process_task env t w = Some (log_line (LError e) w1)"
  by (simp add: process_task_def process_body_def)

lemma not_notify_probe: "e = Http GET u NoBody \<or> e = Sleep p \<Longrightarrow> \<not> is_notify e"
  by auto

lemma process_task_falsy_callback:
  assumes v: "py_get t ''evaluation_url'' JNull = Inr v" and f: "\<not> truthy v"
  shows "\<exists>w'. process_task env t w = Some w' \<and> extends (\<lambda>e. \<not> is_notify e) w w' \<and>
           (\<forall>f r u s w1. before_polling env t w = (Inr (f, r, u, s), w1) \<longrightarrow>
              last (stdout w') = LFinished (f_task_id f) u)"
proof -
  obtain res w1 where b: "before_polling env t w = (res, w1)" by fastforce
  have e1: "extends (\<lambda>e. \<not> is_notify e) w w1" using b by (rule before_polling_extends)
  show ?thesis
  proof (cases res)
    case (Inl e)
    then show ?thesis
      using b e1 process_task_early_failure [of env t w e w1] by (auto simp: extends_log)
  next
    case (Inr c)
    obtain f r u s where c: "c = (f, r, u, s)" by (cases c) auto
    have b': "before_polling env t w = (Inr (f, r, u, s), w1)" using b Inr c by simp
    have "f_evaluation_url f = v"
      using before_polling_fields [OF b'] read_fields_evaluation_url v by fastforce
    then have nf: "\<not> truthy (f_evaluation_url f)" using assms(2) by simp
    obtain ok w2 where
      wl: "wait_loop env (HostedPages (gh_user env) r) (clock w1 + 180) 2 w1 = Some (Inr ok, w2)"
      using wait_loop_returns [of 2] by fastforce
    have e2: "extends (\<lambda>e. \<not> is_notify e) w1 w2"
      using wait_loop_extends [OF wl] by (auto elim!: extends_mono)
    define w3 where
      "w3 = (if ok then w2 else log_line (LPagesWarning (HostedPages (gh_user env) r)) w2)"
    have e3: "extends (\<lambda>e. \<not> is_notify e) w w3"
      using extends_trans [OF e1 e2] by (simp add: w3_def extends_log)
    have p: "process_task env t w = Some (log_line (LFinished (f_task_id f) u) w3)"
      using b' wl finish_falsy [OF nf]
      by (simp add: process_task_def process_body_def poll_and_finish_def wait_for_pages_def
            w3_def)
    show ?thesis
      using p e3 b' by (auto simp: extends_log) (simp add: log_line_def)
  qed
qed

lemma first_missing_present:
  "\<forall>k\<in>set ks. map_of d k \<noteq> None \<Longrightarrow> first_missing (JObj d) ks = Inr None"
  by (induction ks) auto

lemma api_task_accepts:
  assumes "\<forall>k\<in>set required. map_of d k \<noteq> None"
    and "map_of d ''email'' = Some em" and "map_of d ''secret'' = Some s"
    and "key_of em = Inr k" and "secrets_map st k = Some stored"
  shows "api_task st (Some (JObj d)) =
           (if stored = JNull \<or> \<not> py_eq stored s
            then Inr (Reply 400 ''error'' ''invalid secret'', None)
            else Inr (Reply 200 ''status'' ''accepted'', Some (JObj d)))"
  using assms by (simp add: api_task_def first_missing_present)

text \<open>
  C10. A submission whose \<^verbatim>\<open>evaluation_url\<close> key is present with a false value (null,
  false, 0, an empty string, list or dict) is accepted by \<^verbatim>\<open>api_task\<close> as soon as all
  required keys are present and the secret matches: only the presence of the key is
  tested. \<^verbatim>\<open>process_task\<close> then returns without ever posting to a callback, and when the
  stages before the polling succeed it ends with the line "Finished task".
\<close>

theorem falsy_callback_accepted_never_notified:
  assumes "\<forall>k\<in>set required. map_of d k \<noteq> None"
    and "map_of d ''email'' = Some em" and "map_of d ''secret'' = Some s"
    and "key_of em = Inr k" and "secrets_map st k = Some stored"
    and "stored \<noteq> JNull" and "py_eq stored s"
    and "map_of d ''evaluation_url'' = Some v" and "\<not> truthy v"
  shows "api_task st (Some (JObj d)) = Inr (Reply 200 ''status'' ''accepted'', Some (JObj d)) \<and>
         (\<exists>w'. process_task env (JObj d) w = Some w' \<and>
               (\<exists>es. trace w' = trace w @ es \<and> list_all (\<lambda>e. \<not> is_notify e) es) \<and>
               (\<forall>f r u s w1. before_polling env (JObj d) w = (Inr (f, r, u, s), w1) \<longrightarrow>
                  last (stdout w') = LFinished (f_task_id f) u))"
proof -
  have a: "api_task st (Some (JObj d)) = Inr (Reply 200 ''status'' ''accepted'', Some (JObj d))"
    using api_task_accepts [OF assms(1-5)] assms(6,7) by simp
  have "py_get (JObj d) ''evaluation_url'' JNull = Inr v" using assms(8) by simp
  from process_task_falsy_callback [OF this assms(9), of env w] a
  show ?thesis by (auto simp: extends_def)
qed

theorem falsy_callback_accepted_never_notified_witness:
  "api_task server0 (Some (task_with (JArr []) (JStr ''''))) =
     Inr (Reply 200 ''status'' ''accepted'', Some (task_with (JArr []) (JStr ''''))) \<and>
   (\<exists>w'. process_task (env_with (\<lambda>k. if k < 2 then created else Resp 200 None) (\<lambda>k. 0))
            (task_with (JArr []) (JStr '''')) world0 = Some w' \<and>
         list_all (\<lambda>e. \<not> is_notify e) (trace w') \<and>
         last (stdout w') = LFinished (JStr ''t1'') (JStr ''https://github.com/alice/t1-012345''))"
proof -
  let ?env = "env_with (\<lambda>k. if k < 2 then created else Resp 200 None) (\<lambda>k. 0)"
  let ?d = "[(''email'', JStr ''a@b.c''), (''secret'', JStr ''s3cret''), (''task'', JStr ''t1''),
             (''round'', JInt 1), (''nonce'', JStr ''n0''), (''brief'', JStr ''demo''),
             (''evaluation_url'', JStr ''''), (''attachments'', JArr [])]"
  have t: "task_with (JArr []) (JStr '''') = JObj ?d" by (simp add: task_with_def)
  have 1: "\<forall>k\<in>set required. map_of ?d k \<noteq> None" by (simp add: required_def)
  have 2: "map_of ?d ''email'' = Some (JStr ''a@b.c'')" by simp
  have 3: "map_of ?d ''secret'' = Some (JStr ''s3cret'')" by simp
  have 4: "key_of (JStr ''a@b.c'') = Inr (KStr ''a@b.c'')" by simp
  have 5: "secrets_map server0 (KStr ''a@b.c'') = Some (JStr ''s3cret'')"
    by (simp add: server0_def)
  have 6: "JStr ''s3cret'' \<noteq> JNull" by simp
  have 7: "py_eq (JStr ''s3cret'') (JStr ''s3cret'')" by (simp add: py_eq_def)
  have 8: "map_of ?d ''evaluation_url'' = Some (JStr '''')" by simp
  have 9: "\<not> truthy (JStr '''')" by simp
  have "\<exists>f r u s w1. before_polling ?env (JObj ?d) world0 = (Inr (f, r, u, s), w1) \<and>
      u = JStr ''https://github.com/alice/t1-012345'' \<and> f_task_id f = JStr ''t1''"
    using t [symmetric] by (simp add: eval_defs run_defs)
  then obtain f r u s w1 where b: "before_polling ?env (JObj ?d) world0 = (Inr (f, r, u, s), w1)"
    and u: "u = JStr ''https://github.com/alice/t1-012345''" and f: "f_task_id f = JStr ''t1''"
    by blast
  have tr: "trace world0 = []" by (simp add: world0_def)
  show ?thesis
    using falsy_callback_accepted_never_notified [OF 1 2 3 4 5 6 7 8 9, of ?env world0] b u f
    unfolding t by (auto simp: tr)
qed

lemma http_request_trace:
  "http_request env m u b w = (r, w1) \<Longrightarrow>
   trace w1 = trace w @ [Http m u b] \<and> http_calls w1 = Suc (http_calls w)"
  by (auto simp: http_request_def Let_def split: http_outcome.splits)

lemma enable_pages_accepted:
  assumes "str_truthy (gh_token env)" and "http_result env (http_calls w) = Resp status doc"
    and "status = 201 \<or> status = 202"
  shows "\<exists>w1. github_enable_pages env owner repo w = (Inr (status, doc), w1) \<and>
              new_events w w1 = [Http POST (ApiPages owner repo) PagesBody]"
  using assms
  by (auto simp: github_enable_pages_def bindE_def ret_def http_request_def Let_def
        new_events_def)

lemma enable_pages_rejected:
  assumes "str_truthy (gh_token env)" and "http_result env (http_calls w) = Resp status doc"
    and "status \<noteq> 201" and "status \<noteq> 202"
  shows "\<exists>res w1. github_enable_pages env owner repo w = (res, w1) \<and>
           new_events w w1 = [Http POST (ApiPages owner repo) PagesBody,
                              Http PUT (ApiPages owner repo) PagesBody] \<and>
           res = (case http_result env (Suc (http_calls w)) of
                    Resp s d \<Rightarrow> Inr (s, d) | ConnFail \<Rightarrow> Inl RequestException)"
  using assms
  by (cases "http_result env (Suc (http_calls w))")
     (auto simp: github_enable_pages_def bindE_def ret_def http_request_def Let_def
        new_events_def)

lemma notify_loop_first_post:
  assumes "0 \<le> d"
  shows "\<exists>b w' es. notify_loop env u pl (Suc n) a d w = (Inr b, w') \<and>
           trace w' = trace w @ Http POST (Callback u) (Notification pl) # es"
proof (cases "delivered (http_result env (http_calls w))")
  case True
  then show ?thesis using notify_loop_delivered_attempt [OF True] by blast
next
  case False
  obtain w2 where s: "notify_loop env u pl (Suc n) a d w =
                        notify_loop env u pl n (a + 1) (min (d * 2) 60) w2"
    and t: "trace w2 = trace w @ failed_round u pl d"
    using notify_loop_failed_attempt [OF False assms] by blast
  have d2: "0 \<le> min (d * 2) 60" using assms by simp
  obtain b w' where r: "notify_loop env u pl n (a + 1) (min (d * 2) 60) w2 = (Inr b, w')"
    using notify_loop_no_raise [OF d2] by blast
  have "extends (\<lambda>e. True) w2 w'"
    using only_emits_notify_loop [OF d2, of "\<lambda>e. True" u pl env n "a + 1"] r
    by (auto simp: only_emits_def dest: spec [of _ w2])
  then obtain es where "trace w' = trace w2 @ es" by (auto simp: extends_def)
  then show ?thesis using s r t by (simp add: failed_round_def)
qed

lemma finish_truthy:
  assumes "truthy (f_evaluation_url f)"
  shows "\<exists>w1 es. finish env f r u s w = (Inr (), log_line (LFinished (f_task_id f) u) w1) \<and>
           trace w1 = trace w @ Http POST (Callback (f_evaluation_url f))
                                  (Notification (make_payload env f r u s)) # es"
proof -
  have n: "nat 8 = Suc 7" by simp
  obtain b w1 es where
    r: "notify_loop env (f_evaluation_url f) (make_payload env f r u s) (nat 8) 0 1 w = (Inr b, w1)"
    and t: "trace w1 = trace w @ Http POST (Callback (f_evaluation_url f))
                                  (Notification (make_payload env f r u s)) # es"
    using notify_loop_first_post [of 1 env "f_evaluation_url f" "make_payload env f r u s" 7 0 w]
    unfolding n by auto
  show ?thesis
  proof (cases b)
    case True
    then show ?thesis
      using assms r t
      by (auto simp: finish_def notify_stage_def notify_with_backoff_def bindE_def ret_def
          py_print_def)
  next
    case False
    have "trace (log_line LNotifyFailed w1) = trace w @ Http POST (Callback (f_evaluation_url f))
                                  (Notification (make_payload env f r u s)) # es"
      using t by (simp add: log_line_def)
    then show ?thesis
      using assms r False
      by (auto simp: finish_def notify_stage_def notify_with_backoff_def bindE_def ret_def
          py_print_def)
  qed
qed

lemma process_task_after_pages:
  assumes l: "local_stages env t w = (Inr (f, ws), w1)"
    and c: "create_and_push env f ws w1 = (Inr (r, u, s), w2)"
    and g: "github_enable_pages env (gh_user env) r w2 = (Inr resp, w3)"
  shows "\<exists>w' es. process_task env t w = Some w' \<and>
           trace w' = trace w3 @ Http GET (HostedPages (gh_user env) r) NoBody # es \<and>
           (truthy (f_evaluation_url f) \<longrightarrow>
              Http POST (Callback (f_evaluation_url f)) (Notification (make_payload env f r u s))
                \<in> set es) \<and>
           last (stdout w') = LFinished (f_task_id f) u"
proof -
  let ?u = "HostedPages (gh_user env) r"
  define w4 where "w4 = log_line (LPagesStatus (fst resp)) w3"
  have b: "before_polling env t w = (Inr (f, r, u, s), w4)"
    using l c g
    by (simp add: before_polling_def enable_pages_step_def bindE_def ret_def py_print_def w4_def)
  obtain ok w5 where wl: "wait_loop env ?u (clock w4 + 180) 2 w4 = Some (Inr ok, w5)"
    using wait_loop_returns [of 2] by fastforce
  have "clock w4 < clock w4 + 180" by simp
  from wait_loop_first_probe [OF this wl] obtain es1 where
    t5: "trace w5 = trace w3 @ Http GET ?u NoBody # es1"
    by (auto simp: w4_def log_line_def)
  define w6 where "w6 = (if ok then w5 else log_line (LPagesWarning ?u) w5)"
  have t6: "trace w6 = trace w3 @ Http GET ?u NoBody # es1"
    using t5 by (simp add: w6_def log_line_def)
  have pf: "poll_and_finish env f r u s w4 = Some (finish env f r u s w6)"
    using wl by (simp add: poll_and_finish_def wait_for_pages_def w6_def)
  show ?thesis
  proof (cases "truthy (f_evaluation_url f)")
    case True
    from finish_truthy [OF True, of env r u s w6] obtain w7 es2 where
      fin: "finish env f r u s w6 = (Inr (), log_line (LFinished (f_task_id f) u) w7)"
      and t7: "trace w7 = trace w6 @ Http POST (Callback (f_evaluation_url f))
                                  (Notification (make_payload env f r u s)) # es2"
      by blast
    have "process_task env t w = Some (log_line (LFinished (f_task_id f) u) w7)"
      using b pf fin by (simp add: process_task_def process_body_def)
    moreover have "trace (log_line (LFinished (f_task_id f) u) w7) =
        trace w3 @ Http GET ?u NoBody #
          (es1 @ Http POST (Callback (f_evaluation_url f))
                   (Notification (make_payload env f r u s)) # es2)"
      using t6 t7 by (simp add: log_line_def)
    ultimately show ?thesis by (fastforce simp: log_line_def)
  next
    case False
    have "process_task env t w = Some (log_line (LFinished (f_task_id f) u) w6)"
      using b pf finish_falsy [OF False] by (simp add: process_task_def process_body_def)
    then show ?thesis using t6 False by (simp add: log_line_def)
  qed
qed

text \<open>
  C5, as amended. In \<^verbatim>\<open>github_enable_pages\<close>, when the POST is answered with a status
  other than 201 and 202, exactly one PUT is sent to the same endpoint, and nothing
  else. Whenever the step returns a response, whatever its status, \<^verbatim>\<open>process_task\<close> goes
  on: the next request is the first probe of the hosted URL, and when the callback URL
  is true a notification is posted after the polling, and the task ends with
  "Finished task". (A transport exception raised by the POST or the PUT is not such a
  response: it ends the task like any other error.)
\<close>

theorem hosting_enable_retry_then_continue:
  "(str_truthy (gh_token env) \<and> http_result env (http_calls w0) = Resp status doc \<and>
    status \<noteq> 201 \<and> status \<noteq> 202 \<longrightarrow>
      (\<exists>res w1. github_enable_pages env owner repo w0 = (res, w1) \<and>
         new_events w0 w1 = [Http POST (ApiPages owner repo) PagesBody,
                             Http PUT (ApiPages owner repo) PagesBody])) \<and>
   (local_stages env t w = (Inr (f, ws), w1) \<and>
    create_and_push env f ws w1 = (Inr (r, u, s), w2) \<and>
    github_enable_pages env (gh_user env) r w2 = (Inr resp, w3) \<longrightarrow>
      (\<exists>w' es. process_task env t w = Some w' \<and>
         trace w' = trace w3 @ Http GET (HostedPages (gh_user env) r) NoBody # es \<and>
         (truthy (f_evaluation_url f) \<longrightarrow>
            Http POST (Callback (f_evaluation_url f)) (Notification (make_payload env f r u s))
              \<in> set es) \<and>
         last (stdout w') = LFinished (f_task_id f) u))"
  using enable_pages_rejected [of env w0 status doc owner repo]
    process_task_after_pages [of env t w f ws w1 r u s w2 resp w3]
  by blast

theorem hosting_enable_retry_then_continue_witness:
  "(\<exists>res w1. github_enable_pages (env_with (\<lambda>k. Resp 404 None) (\<lambda>k. 0)) (Some ''alice'')
                (Repo (JStr ''t1'') ''012345'') world0 = (res, w1) \<and>
              new_events world0 w1 =
                [Http POST (ApiPages (Some ''alice'') (Repo (JStr ''t1'') ''012345'')) PagesBody,
                 Http PUT (ApiPages (Some ''alice'') (Repo (JStr ''t1'') ''012345'')) PagesBody]) \<and>
   (\<exists>w'. process_task
            (env_with (\<lambda>k. if k = 0 then created else if k < 3 then Resp 404 None else Resp 200 None)
               (\<lambda>k. 0))
            (task_with (JArr []) (JStr ''http://cb'')) world0 = Some w' \<and>
          Http GET (HostedPages (Some ''alice'') (Repo (JStr ''t1'') ''012345'')) NoBody
            \<in> set (trace w') \<and>
          (\<exists>pl. Http POST (Callback (JStr ''http://cb'')) (Notification pl) \<in> set (trace w')) \<and>
          last (stdout w') = LFinished (JStr ''t1'') (JStr ''https://github.com/alice/t1-012345''))"
proof (intro conjI)
  let ?e0 = "env_with (\<lambda>k. Resp 404 None) (\<lambda>k. 0)"
  have a: "str_truthy (gh_token ?e0) \<and> http_result ?e0 (http_calls world0) = Resp 404 None \<and>
           (404::int) \<noteq> 201 \<and> (404::int) \<noteq> 202"
    by (simp add: env_with_def str_truthy_def)
  show "\<exists>res w1. github_enable_pages ?e0 (Some ''alice'') (Repo (JStr ''t1'') ''012345'') world0
                  = (res, w1) \<and>
              new_events world0 w1 =
                [Http POST (ApiPages (Some ''alice'') (Repo (JStr ''t1'') ''012345'')) PagesBody,
                 Http PUT (ApiPages (Some ''alice'') (Repo (JStr ''t1'') ''012345'')) PagesBody]"
    using a hosting_enable_retry_then_continue
      [where env = ?e0 and ?w0.0 = world0 and status = 404 and doc = None
         and owner = "Some ''alice''" and repo = "Repo (JStr ''t1'') ''012345''"]
    by blast
next
  let ?env = "env_with (\<lambda>k. if k = 0 then created else if k < 3 then Resp 404 None else Resp 200 None)
               (\<lambda>k. 0)"
  let ?task = "task_with (JArr []) (JStr ''http://cb'')"
  have "\<exists>f ws w1 r u s w2 resp w3.
          local_stages ?env ?task world0 = (Inr (f, ws), w1) \<and>
          create_and_push ?env f ws w1 = (Inr (r, u, s), w2) \<and>
          github_enable_pages ?env (gh_user ?env) r w2 = (Inr resp, w3) \<and>
          gh_user ?env = Some ''alice'' \<and> r = Repo (JStr ''t1'') ''012345'' \<and>
          f_evaluation_url f = JStr ''http://cb'' \<and> f_task_id f = JStr ''t1'' \<and>
          u = JStr ''https://github.com/alice/t1-012345''"
    by (simp add: eval_defs run_defs)
  then obtain f ws w1 r u s w2 resp w3 where
    h: "local_stages ?env ?task world0 = (Inr (f, ws), w1) \<and>
          create_and_push ?env f ws w1 = (Inr (r, u, s), w2) \<and>
          github_enable_pages ?env (gh_user ?env) r w2 = (Inr resp, w3)"
    and v: "gh_user ?env = Some ''alice''" "r = Repo (JStr ''t1'') ''012345''"
          "f_evaluation_url f = JStr ''http://cb''" "f_task_id f = JStr ''t1''"
          "u = JStr ''https://github.com/alice/t1-012345''"
    by blast
  from h hosting_enable_retry_then_continue
      [where env = ?env and t = ?task and w = world0 and f = f and ws = ws and ?w1.0 = w1
         and r = r and u = u and s = s and ?w2.0 = w2 and resp = resp and ?w3.0 = w3]
  obtain w' es where p: "process_task ?env ?task world0 = Some w'"
    and t: "trace w' = trace w3 @ Http GET (HostedPages (gh_user ?env) r) NoBody # es"
    and n: "truthy (f_evaluation_url f) \<longrightarrow>
            Http POST (Callback (f_evaluation_url f)) (Notification (make_payload ?env f r u s))
              \<in> set es"
    and l: "last (stdout w') = LFinished (f_task_id f) u"
    by blast
  have "Http POST (Callback (JStr ''http://cb'')) (Notification (make_payload ?env f r u s))
          \<in> set (trace w')"
    using n t v by simp
  then show "\<exists>w'. process_task ?env ?task world0 = Some w' \<and>
          Http GET (HostedPages (Some ''alice'') (Repo (JStr ''t1'') ''012345'')) NoBody
            \<in> set (trace w') \<and>
          (\<exists>pl. Http POST (Callback (JStr ''http://cb'')) (Notification pl) \<in> set (trace w')) \<and>
          last (stdout w') = LFinished (JStr ''t1'') (JStr ''https://github.com/alice/t1-012345'')"
    using p t l v by auto
qed

text \<open>
  The claim as stated fails: when the POST that enables the hosting raises a transport
  exception, the exception leaves \<^verbatim>\<open>github_enable_pages\<close> and ends the task. The only
  requests ever sent are the creation of the repository and that POST: no PUT, no
  probe, and no notification although the callback URL is set.
\<close>

theorem hosting_enable_exception_counterexample:
  "\<exists>w'. process_task (env_with (\<lambda>k. if k = 0 then created else ConnFail) (\<lambda>k. 0))
           (task_with (JArr []) (JStr ''http://cb'')) world0 = Some w' \<and>
         filter is_http (trace w') =
           [Http POST ApiUserRepos (RepoBody (Repo (JStr ''t1'') ''012345'') (JStr ''t1'') 1),
            Http POST (ApiPages (Some ''alice'') (Repo (JStr ''t1'') ''012345'')) PagesBody] \<and>
         last (stdout w') = LError RequestException"
proof -
  let ?env = "env_with (\<lambda>k. if k = 0 then created else ConnFail) (\<lambda>k. 0)"
  let ?task = "task_with (JArr []) (JStr ''http://cb'')"
  have "\<exists>w1. before_polling ?env ?task world0 = (Inl RequestException, w1) \<and>
          filter is_http (trace w1) =
           [Http POST ApiUserRepos (RepoBody (Repo (JStr ''t1'') ''012345'') (JStr ''t1'') 1),
            Http POST (ApiPages (Some ''alice'') (Repo (JStr ''t1'') ''012345'')) PagesBody]"
    by (simp add: eval_defs run_defs)
  then obtain w1 where b: "before_polling ?env ?task world0 = (Inl RequestException, w1)"
    and t: "filter is_http (trace w1) =
           [Http POST ApiUserRepos (RepoBody (Repo (JStr ''t1'') ''012345'') (JStr ''t1'') 1),
            Http POST (ApiPages (Some ''alice'') (Repo (JStr ''t1'') ''012345'')) PagesBody]"
    by blast
  show ?thesis
    using process_task_early_failure [OF b] t by (simp add: log_line_def)
qed

section \<open>The contents of the workspace\<close>

lemma mkdtemp_listing:
  "mkdtemp env t w = (Inr ws, w') \<Longrightarrow> listing w' ws = {} \<and> dirs w' ws \<noteq> None"
  by (auto simp: mkdtemp_def Let_def listing_def split: option.splits if_splits)

lemma write_file_listing:
  "write_file env ws n c w = (Inr (), w') \<Longrightarrow> plain_name n \<Longrightarrow>
   listing w' ws = insert n (listing w ws) \<and> dirs w' ws \<noteq> None"
  by (auto simp: write_file_def Let_def listing_def split: option.splits if_splits)

lemma listing_log_line [simp]: "listing (log_line m w) ws = listing w ws"
  by (simp add: listing_def log_line_def)

lemma write_attachment_listing:
  assumes "write_attachment env ws a w = (Inr (), w')" and "plain_name (name_of a)"
  shows "listing w' ws = insert (name_of a) (listing w ws)"
proof -
  from assms(1) obtain n u bytes w1 where n: "py_getitem a ''name'' = Inr (JStr n)"
    and wf: "write_file env ws n (Bytes bytes) w = (Inr (), w1)" and w': "w' = log_line (LAttachment ws n) w1"
    by (auto simp: write_attachment_def bindE_def lift_def py_raise_def py_print_def
          decode_data_uri_to_file_def split: sum.splits json.splits prod.splits)
  have "name_of a = n" using n by (simp add: name_of_def)
  then show ?thesis using write_file_listing [OF wf] assms(2) w' by simp
qed

lemma write_attachments_listing:
  "write_attachments env ws atts w = (Inr (), w') \<Longrightarrow> \<forall>a\<in>set atts. plain_name (name_of a) \<Longrightarrow>
   listing w' ws = listing w ws \<union> set (map name_of atts)"
proof (induction atts arbitrary: w)
  case Nil
  then show ?case by (simp add: ret_def)
next
  case (Cons a atts)
  from Cons.prems(1) obtain w1 where 1: "write_attachment env ws a w = (Inr (), w1)"
    and 2: "write_attachments env ws atts w1 = (Inr (), w')"
    by (auto simp: bindE_def split: sum.splits prod.splits)
  have "listing w1 ws = insert (name_of a) (listing w ws)"
    using write_attachment_listing [OF 1] Cons.prems(2) by simp
  moreover have "listing w' ws = listing w1 ws \<union> set (map name_of atts)"
    using Cons.IH [OF 2] Cons.prems(2) by simp
  ultimately show ?case by auto
qed

lemma workspace_stage_listing:
  assumes "workspace_stage env tid (JArr atts) w = (Inr ws, w1)"
    and "\<forall>a\<in>set atts. plain_name (name_of a)"
  shows "listing w1 ws = set (map name_of atts)"
proof -
  from assms(1) obtain w0 where m: "mkdtemp env tid w = (Inr ws, w0)"
    and wa: "write_attachments env ws atts (log_line (LWorkspace ws) w0) = (Inr (), w1)"
    by (auto simp: workspace_stage_def bindE_def lift_def ret_def py_print_def
          split: sum.splits prod.splits)
  show ?thesis
    using write_attachments_listing [OF wa assms(2)] mkdtemp_listing [OF m] by simp
qed

lemma build_stage_listing:
  assumes "build_stage env ws brief atts w1 = (Inr (), w2)"
  shows "listing w2 ws = listing w1 ws \<union> generated_names"
proof -
  from assms obtain d wa wb where
    a: "write_file env ws ''index.html'' (IndexHtml d) w1 = (Inr (), wa)"
    and b: "write_file env ws ''README.md'' (Readme brief) wa = (Inr (), wb)"
    and c: "write_file env ws ''LICENSE'' (License (utc_year env) (str_or (gh_user env) ''unknown'')) wb
              = (Inr (), w2)"
    by (auto simp: build_stage_def generate_minimal_app_def write_mit_license_def bindE_def
          lift_def ret_def split: sum.splits if_splits prod.splits)
  have p: "plain_name ''index.html''" "plain_name ''README.md''" "plain_name ''LICENSE''"
    by (simp_all add: plain_name_def)
  show ?thesis
    using write_file_listing [OF a p(1)] write_file_listing [OF b p(2)]
      write_file_listing [OF c p(3)]
    by (auto simp: generated_names_def)
qed


lemma post_build_listing:
  assumes "workspace_stage env tid (JArr atts) w = (Inr ws, w1)"
    and "build_stage env ws brief (JArr atts) w1 = (Inr (), w2)"
    and "\<forall>a\<in>set atts. plain_name (name_of a)"
  shows "listing w2 ws = set (map name_of atts) \<union> generated_names"
  using workspace_stage_listing [OF assms(1,3)] build_stage_listing [OF assms(2)] by simp


lemma write_file_succeeds:
  "write_ok env (fs_calls w) \<Longrightarrow> dirs w ws \<noteq> None \<Longrightarrow>
   \<exists>w'. write_file env ws n c w = (Inr (), w') \<and> dirs w' ws \<noteq> None"
  by (auto simp: write_file_def Let_def)

lemma build_stage_succeeds:
  assumes "\<forall>k. write_ok env k" and "dirs w ws \<noteq> None"
    and "generate_minimal_app brief atts = Inr files"
  shows "\<exists>w2. build_stage env ws brief atts w = (Inr (), w2)"
proof -
  obtain d where f: "files = [(''index.html'', IndexHtml d), (''README.md'', Readme brief)]"
    using assms(3) by (auto simp: generate_minimal_app_def split: sum.splits if_splits)
  obtain wa where a: "write_file env ws ''index.html'' (IndexHtml d) w = (Inr (), wa)"
    and da: "dirs wa ws \<noteq> None"
    using write_file_succeeds assms(1,2) by blast
  obtain wb where b: "write_file env ws ''README.md'' (Readme brief) wa = (Inr (), wb)"
    and db: "dirs wb ws \<noteq> None"
    using write_file_succeeds assms(1) da by blast
  obtain wc where c: "write_file env ws ''LICENSE''
                        (License (utc_year env) (str_or (gh_user env) ''unknown'')) wb = (Inr (), wc)"
    using write_file_succeeds assms(1) db by blast
  show ?thesis
    using assms(3) f a b c
    by (simp add: build_stage_def write_mit_license_def bindE_def lift_def ret_def)
qed

lemma workspace_stage_dir:
  assumes "workspace_stage env tid atts w = (Inr ws, w1)"
  shows "dirs w1 ws \<noteq> None"
proof -
  let ?rest = "\<lambda>ws. bindE (py_print (LWorkspace ws)) (\<lambda>_.
                 bindE (lift (py_iter atts)) (\<lambda>atts.
                 bindE (write_attachments env ws atts) (\<lambda>_. ret ws)))"
  from assms obtain w0 where m: "mkdtemp env tid w = (Inr ws, w0)"
    and r: "?rest ws w0 = (Inr ws, w1)"
    by (auto simp: workspace_stage_def bindE_def lift_def ret_def py_print_def
          split: sum.splits prod.splits)
  have "only_emits (\<lambda>e. True) (?rest ws)"
    by (intro only_emits_intros only_emits_write_attachments) auto
  then have "keeps_files w0 w1"
    using r by (auto simp: only_emits_def extends_def dest: spec [of _ w0])
  moreover obtain files where "dirs w0 ws = Some files"
    using mkdtemp_listing [OF m] by auto
  ultimately show ?thesis
    unfolding keeps_files_def by fastforce
qed



section \<open>No cleanup\<close>

lemma same_dirs_ret: "same_dirs (ret x)"
  by (simp add: same_dirs_def ret_def)

lemma same_dirs_raise: "same_dirs (py_raise e)"
  by (simp add: same_dirs_def py_raise_def)

lemma same_dirs_lift: "same_dirs (lift r)"
  by (simp add: same_dirs_def lift_def)

lemma same_dirs_print: "same_dirs (py_print m)"
  by (simp add: same_dirs_def py_print_def log_line_def)

lemma same_dirs_bind:
  assumes "same_dirs m" and "\<And>x. same_dirs (f x)"
  shows "same_dirs (bindE m f)"
proof -
  have "dirs (snd (bindE m f w)) = dirs w" for w
  proof (cases "m w")
    case (Pair r w1)
    have 1: "dirs w1 = dirs w" using assms(1) Pair by (metis same_dirs_def snd_conv)
    show ?thesis
    proof (cases r)
      case (Inl e)
      then show ?thesis using 1 Pair by (simp add: bindE_def)
    next
      case (Inr x)
      have "dirs (snd (f x w1)) = dirs w1" using assms(2) by (simp add: same_dirs_def)
      then show ?thesis using 1 Pair Inr by (simp add: bindE_def)
    qed
  qed
  then show ?thesis by (simp add: same_dirs_def)
qed

lemma same_dirs_http: "same_dirs (http_request env m u b)"
  by (auto simp: same_dirs_def http_request_def Let_def split: http_outcome.split)

lemma same_dirs_sleep: "same_dirs (py_sleep d)"
  by (simp add: same_dirs_def py_sleep_def)

lemma same_dirs_run: "same_dirs (run env cmd cwd)"
  by (auto simp: same_dirs_def run_def Let_def log_line_def split: option.split)

lemma same_dirs_new_repo_name: "same_dirs (new_repo_name env t)"
  by (simp add: same_dirs_def new_repo_name_def)

lemmas same_dirs_intros =
  same_dirs_ret same_dirs_raise same_dirs_lift same_dirs_print same_dirs_bind
  same_dirs_http same_dirs_sleep same_dirs_run same_dirs_new_repo_name

lemma same_dirs_publish_stage: "same_dirs (publish_stage env ws email tid r)"
  unfolding publish_stage_def
  by (auto intro!: same_dirs_intros split: json.split)

lemma same_dirs_create_and_push: "same_dirs (create_and_push env f ws)"
  unfolding create_and_push_def github_create_repo_def
  by (auto intro!: same_dirs_intros split: option.split)

lemma same_dirs_enable_pages_step: "same_dirs (enable_pages_step env r)"
  unfolding enable_pages_step_def github_enable_pages_def
  by (auto intro!: same_dirs_intros)

lemma same_dirs_notify_loop: "same_dirs (notify_loop env u pl n a d)"
proof (induction n arbitrary: a d)
  case 0
  then show ?case by (simp add: same_dirs_def)
next
  case (Suc n)
  have rest: "same_dirs (bindE (py_sleep d)
                (\<lambda>_. notify_loop env u pl n (a + 1) (min (d * 2) 60)))"
    using Suc by (auto intro!: same_dirs_intros)
  have "dirs (snd (notify_loop env u pl (Suc n) a d w)) = dirs w" for w
  proof (cases "http_request env POST (Callback u) (Notification pl) w")
    case (Pair r w1)
    then have 1: "dirs w1 = dirs w" using same_dirs_http [of env POST "Callback u" "Notification pl"]
      by (metis same_dirs_def snd_conv)
    have 2: "dirs (log_line m w1) = dirs w" for m using 1 by (simp add: log_line_def)
    have 3: "dirs (snd (bindE (py_sleep d)
                (\<lambda>_. notify_loop env u pl n (a + 1) (min (d * 2) 60)) (log_line m w1))) = dirs w" for m
      using rest 2 by (simp add: same_dirs_def)
    show ?thesis
    proof (cases r)
      case (Inl e)
      then show ?thesis using Pair 3 by (simp add: notify_loop.simps)
    next
      case (Inr sd)
      then show ?thesis
        using Pair 2 3 by (cases sd) (simp add: notify_loop.simps Let_def)
    qed
  qed
  then show ?case by (simp add: same_dirs_def)
qed

lemma same_dirs_finish: "same_dirs (finish env f r u s)"
  unfolding finish_def notify_stage_def notify_with_backoff_def
  by (auto intro!: same_dirs_intros same_dirs_notify_loop)

lemma wait_loop_dirs:
  assumes "wait_loop env u dl p w = Some r"
  shows "dirs (snd r) = dirs w"
proof (rule wait_loop.raw_induct
    [where P = "\<lambda>env u dl p w r. dirs (snd r) = dirs w", OF _ assms])
  fix wl :: "env \<Rightarrow> url \<Rightarrow> int \<Rightarrow> int \<Rightarrow> world \<Rightarrow> ((error + bool) \<times> world) option"
  fix env u dl p w r
  assume IH: "\<And>env u dl p w r. wl env u dl p w = Some r \<Longrightarrow> dirs (snd r) = dirs w"
  assume body: "(if clock w < dl then
        (case http_request env GET u NoBody w of
           (Inl e, w1) \<Rightarrow>
             (case py_sleep p w1 of
                (Inl e', w2) \<Rightarrow> Some (Inl e', w2)
              | (Inr u', w2) \<Rightarrow> wl env u dl p w2)
         | (Inr (status, doc), w1) \<Rightarrow>
             if status = 200 then Some (Inr True, w1)
             else (case py_sleep p w1 of
                     (Inl e, w2) \<Rightarrow> Some (Inl e, w2)
                   | (Inr u', w2) \<Rightarrow> wl env u dl p w2))
      else Some (Inr False, w)) = Some r"
  obtain r1 w1 where h: "http_request env GET u NoBody w = (r1, w1)" by fastforce
  obtain r2 w2 where s: "py_sleep p w1 = (r2, w2)" by fastforce
  have e1: "dirs w1 = dirs w"
    using h same_dirs_http [of env GET u NoBody] by (metis same_dirs_def snd_conv)
  have e2: "dirs w2 = dirs w1"
    using s same_dirs_sleep [of p] by (metis same_dirs_def snd_conv)
  have e3: "wl env u dl p w2 = Some r \<Longrightarrow> dirs (snd r) = dirs w"
    using IH e1 e2 by fastforce
  show "dirs (snd r) = dirs w"
  proof (cases "clock w < dl")
    case False
    then show ?thesis using body by auto
  next
    case True
    show ?thesis
      using body True h s e1 e2 e3
      by (auto split: sum.splits if_splits)
  qed
qed

lemma poll_and_finish_dirs:
  assumes "poll_and_finish env f r u s w = Some x"
  shows "dirs (snd x) = dirs w"
proof -
  from assms obtain y w1 where
    wl: "wait_loop env (HostedPages (gh_user env) r) (clock w + 180) 2 w = Some (y, w1)"
    by (auto simp: poll_and_finish_def wait_for_pages_def split: option.splits)
  have 1: "dirs w1 = dirs w" using wait_loop_dirs [OF wl] by simp
  have 2: "dirs (log_line m w1) = dirs w" for m using 1 by (simp add: log_line_def)
  have 3: "dirs (snd (finish env f r u s w')) = dirs w'" for w'
    using same_dirs_finish by (simp add: same_dirs_def)
  show ?thesis
    using assms wl 1 2 3
    by (auto simp: poll_and_finish_def wait_for_pages_def split: sum.splits if_splits)
qed

lemma same_dirs_apply: "same_dirs m \<Longrightarrow> m w = (r, w') \<Longrightarrow> dirs w' = dirs w"
  by (metis same_dirs_def snd_conv)

lemma process_task_dirs:
  assumes "local_stages env t w = (r, w1)" and "process_task env t w = Some w'"
  shows "dirs w' = dirs w1"
proof (cases r)
  case (Inl e)
  then show ?thesis
    using assms process_task_local_failure [of env t w e w1] by (auto simp: log_line_def)
next
  case (Inr c)
  obtain f ws where c: "c = (f, ws)" by (cases c) auto
  let ?rest = "bindE (create_and_push env f ws) (\<lambda>(repo_name, repo_url, commit_sha).
                 bindE (enable_pages_step env repo_name) (\<lambda>_.
                 ret (f, repo_name, repo_url, commit_sha)))"
  have sd: "same_dirs ?rest"
    by (auto intro!: same_dirs_intros same_dirs_create_and_push same_dirs_enable_pages_step)
  obtain r2 w2 where r2: "?rest w1 = (r2, w2)" by fastforce
  have d2: "dirs w2 = dirs w1" using same_dirs_apply [OF sd r2] .
  have b: "before_polling env t w = (r2, w2)"
    using assms(1) Inr c r2 by (simp add: before_polling_def bindE_def)
  show ?thesis
  proof (cases r2)
    case (Inl e)
    then show ?thesis
      using assms(2) b d2 by (auto simp: process_task_def process_body_def log_line_def)
  next
    case r2c: (Inr c2)
    obtain f' rn ru sha where c2: "c2 = (f', rn, ru, sha)" by (cases c2) auto
    from assms(2) b r2c c2 obtain x where
      p: "poll_and_finish env f' rn ru sha w2 = Some x" and
      w': "w' = (case fst x of Inl e \<Rightarrow> log_line (LError e) (snd x) | Inr v \<Rightarrow> snd x)"
      by (auto simp: process_task_def process_body_def split: option.splits sum.splits)
    have "dirs (snd x) = dirs w2" using poll_and_finish_dirs [OF p] .
    then show ?thesis using w' d2 by (auto simp: log_line_def split: sum.splits)
  qed
qed

lemma local_stages_after_build:
  assumes "read_fields env t w = (Inr f, w0)"
    and "workspace_stage env (f_task_id f) (f_attachments f) w0 = (Inr ws, w1)"
    and "build_stage env ws (f_brief f) (f_attachments f) w1 = (r2, w2)"
  shows "\<exists>r w3. local_stages env t w = (r, w3) \<and> dirs w3 = dirs w2"
proof (cases r2)
  case (Inl e)
  then show ?thesis using assms by (simp add: local_stages_def bindE_def)
next
  case (Inr u)
  obtain r3 w3 where p: "publish_stage env ws (f_email f) (f_task_id f) (f_round_no f) w2 = (r3, w3)"
    by fastforce
  have "dirs w3 = dirs w2" using same_dirs_apply [OF same_dirs_publish_stage p] .
  then show ?thesis
    using assms Inr p by (cases r3) (simp_all add: local_stages_def bindE_def ret_def)
qed

lemma local_stages_after_attachments:
  assumes "read_fields env t w = (Inr f, w0)"
    and "f_attachments f = JArr (pre @ post)"
    and "mkdtemp env (f_task_id f) w0 = (Inr ws, wm)"
    and "write_attachments env ws pre (log_line (LWorkspace ws) wm) = (Inr (), wa)"
  shows "\<exists>r w3. local_stages env t w = (r, w3) \<and> keeps_files wa w3 \<and> dirs wa ws \<noteq> None"
proof -
  let ?rest = "\<lambda>f ws. bindE (write_attachments env ws post) (\<lambda>_.
                 bindE (ret ws) (\<lambda>ws.
                 bindE (build_stage env ws (f_brief f) (f_attachments f)) (\<lambda>_.
                 bindE (publish_stage env ws (f_email f) (f_task_id f) (f_round_no f)) (\<lambda>_.
                 ret (f, ws)))))"
  have oe: "only_emits (\<lambda>e. True) (?rest f ws)"
    by (intro only_emits_intros only_emits_write_attachments only_emits_build_stage
          only_emits_publish_stage) auto
  obtain r w3 where r: "?rest f ws wa = (r, w3)" by fastforce
  have k: "keeps_files wa w3"
    using oe r by (auto simp: only_emits_def extends_def dest: spec [of _ wa])
  have "local_stages env t w = ?rest f ws wa"
    using assms
    by (simp add: local_stages_def workspace_stage_def bindE_def py_print_def lift_def
          ret_def write_attachments_append split: sum.split prod.split)
  then have l: "local_stages env t w = (r, w3)" using r by simp
  have "only_emits (\<lambda>e. True) (write_attachments env ws pre)"
    by (intro only_emits_write_attachments) auto
  then have "keeps_files (log_line (LWorkspace ws) wm) wa"
    using assms(4) by (auto simp: only_emits_def extends_def dest: spec [of _ "log_line (LWorkspace ws) wm"])
  moreover obtain files where "dirs (log_line (LWorkspace ws) wm) ws = Some files"
    using mkdtemp_listing [OF assms(3)] by (auto simp: log_line_def)
  ultimately have "dirs wa ws \<noteq> None" unfolding keeps_files_def by fastforce
  then show ?thesis using k l by blast
qed

text \<open>
  C3. When the workspace, build or publish stage raises (or the reading of the task's
  fields before them), \<^verbatim>\<open>process_task\<close> prints the error and does nothing else: up to that
  point only local events happened (a directory made, files written, git commands),
  so no HTTP request was sent: no repository was created and no notification was
  posted. No path cleans up. Whatever the local stages end with, \<^verbatim>\<open>process_task\<close> returns
  and the directories and files at its end are exactly those at the end of the local
  stages. Once the workspace directory is made and some of the attachments are written,
  that directory is there at the end, and so is every file written so far. What the
  build stage leaves, complete or not, is what \<^verbatim>\<open>process_task\<close> leaves.
\<close>

theorem failed_local_stage_aborts:
  "(local_stages env task w = (Inl e, w1) \<longrightarrow>
      process_task env task w = Some (log_line (LError e) w1) \<and>
      (\<exists>es. trace w1 = trace w @ es \<and> list_all is_local es) \<and> keeps_files w w1) \<and>
   (\<exists>r w3 w'. local_stages env task w = (r, w3) \<and> process_task env task w = Some w' \<and>
               dirs w' = dirs w3) \<and>
   (read_fields env task w = (Inr f, w0) \<and> f_attachments f = JArr (pre @ post) \<and>
    mkdtemp env (f_task_id f) w0 = (Inr ws, wm) \<and>
    write_attachments env ws pre (log_line (LWorkspace ws) wm) = (Inr (), wa) \<longrightarrow>
      (\<exists>w'. process_task env task w = Some w' \<and> dirs w' ws \<noteq> None \<and> keeps_files wa w')) \<and>
   (read_fields env task w = (Inr f, w0) \<and>
    workspace_stage env (f_task_id f) (f_attachments f) w0 = (Inr ws, wb) \<and>
    build_stage env ws (f_brief f) (f_attachments f) wb = (r2, w2) \<longrightarrow>
      (\<exists>w'. process_task env task w = Some w' \<and> dirs w' = dirs w2))"
proof -
  obtain w' where p: "process_task env task w = Some w'"
    using process_task_returns by blast
  obtain r w3 where l3: "local_stages env task w = (r, w3)" by fastforce
  have d3: "dirs w' = dirs w3" using process_task_dirs [OF l3 p] .
  have 1: "process_task env task w = Some (log_line (LError e) w1) \<and>
           (\<exists>es. trace w1 = trace w @ es \<and> list_all is_local es) \<and> keeps_files w w1"
    if l: "local_stages env task w = (Inl e, w1)"
    using process_task_local_failure [OF l] local_stages_extends [OF l]
    by (simp add: extends_def)
  have 2: "\<exists>r w3 w'. local_stages env task w = (r, w3) \<and> process_task env task w = Some w' \<and>
             dirs w' = dirs w3"
    using p l3 d3 by blast
  have 3: "\<exists>w'. process_task env task w = Some w' \<and> dirs w' ws \<noteq> None \<and> keeps_files wa w'"
    if "read_fields env task w = (Inr f, w0)" "f_attachments f = JArr (pre @ post)"
      "mkdtemp env (f_task_id f) w0 = (Inr ws, wm)"
      "write_attachments env ws pre (log_line (LWorkspace ws) wm) = (Inr (), wa)"
  proof -
    from local_stages_after_attachments [OF that] l3
    have k: "keeps_files wa w3" and d: "dirs wa ws \<noteq> None" by auto
    have k': "keeps_files wa w'"
      using keeps_files_trans [OF k keeps_files_same [OF d3]] .
    then have "dirs w' ws \<noteq> None" using d unfolding keeps_files_def by fastforce
    then show ?thesis using p k' by blast
  qed
  have 4: "\<exists>w'. process_task env task w = Some w' \<and> dirs w' = dirs w2"
    if "read_fields env task w = (Inr f, w0)"
      "workspace_stage env (f_task_id f) (f_attachments f) w0 = (Inr ws, wb)"
      "build_stage env ws (f_brief f) (f_attachments f) wb = (r2, w2)"
    using local_stages_after_build [OF that] l3 d3 p by auto
  show ?thesis using 1 2 3 4 by blast
qed

theorem failed_local_stage_aborts_witness:
  "\<exists>w1 w'.
     local_stages
       ((env_with (\<lambda>k. created) (\<lambda>k. 0))\<lparr>proc_result := (\<lambda>k. if k = 4 then None else Some [])\<rparr>)
       (task_with (JArr [attachment ''a.txt'' ''data:text/plain;base64,QUJD'']) (JStr ''http://cb''))
       world0 = (Inl CalledProcessError, w1) \<and>
     process_task
       ((env_with (\<lambda>k. created) (\<lambda>k. 0))\<lparr>proc_result := (\<lambda>k. if k = 4 then None else Some [])\<rparr>)
       (task_with (JArr [attachment ''a.txt'' ''data:text/plain;base64,QUJD'']) (JStr ''http://cb''))
       world0 = Some w' \<and>
     w' = log_line (LError CalledProcessError) w1 \<and>
     (\<exists>es. trace w1 = trace world0 @ es \<and> list_all is_local es) \<and>
     dirs w' ''/tmp/task-1-x'' \<noteq> None \<and>
     listing w' ''/tmp/task-1-x'' = {''a.txt'', ''index.html'', ''README.md'', ''LICENSE''}"
proof -
  let ?env = "(env_with (\<lambda>k. created) (\<lambda>k. 0))\<lparr>proc_result := (\<lambda>k. if k = 4 then None else Some [])\<rparr>"
  let ?atts = "[attachment ''a.txt'' ''data:text/plain;base64,QUJD'']"
  let ?task = "task_with (JArr ?atts) (JStr ''http://cb'')"
  let ?f = "\<lparr>f_email = JStr ''a@b.c'', f_task_id = JStr ''t1'', f_round_no = 1,
             f_nonce = JStr ''n0'', f_brief = JStr ''demo'', f_attachments = JArr ?atts,
             f_evaluation_url = JStr ''http://cb''\<rparr>"
  let ?w0 = "log_line (LProcessing (JStr ''t1'')) world0"
  let ?ws = "''/tmp/task-1-x''"
  have "\<exists>w1. local_stages ?env ?task world0 = (Inl CalledProcessError, w1)"
    by (simp add: eval_defs run_defs)
  then obtain w1 where l: "local_stages ?env ?task world0 = (Inl CalledProcessError, w1)" ..
  have rf: "read_fields ?env ?task world0 = (Inr ?f, ?w0)"
    by (simp add: read_fields_def bindE_def lift_def ret_def py_print_def task_with_def)
  have "\<exists>wm. mkdtemp ?env (JStr ''t1'') ?w0 = (Inr ?ws, wm)"
    by (simp add: mkdtemp_def env_with_def world0_def log_line_def Let_def)
  then obtain wm where m: "mkdtemp ?env (f_task_id ?f) ?w0 = (Inr ?ws, wm)" by auto
  have wa: "write_attachments ?env ?ws [] (log_line (LWorkspace ?ws) wm) =
              (Inr (), log_line (LWorkspace ?ws) wm)"
    by (simp add: ret_def)
  have "\<exists>wb. workspace_stage ?env (JStr ''t1'') (JArr ?atts) ?w0 = (Inr ?ws, wb)"
    by (simp add: eval_defs run_defs)
  then obtain wb where
    a: "workspace_stage ?env (JStr ''t1'') (JArr ?atts) ?w0 = (Inr ?ws, wb)" ..
  have g: "generate_minimal_app (JStr ''demo'') (JArr ?atts) =
             Inr [(''index.html'', IndexHtml (JStr ''a.txt'')), (''README.md'', Readme (JStr ''demo''))]"
    by (simp add: generate_minimal_app_def attachment_def)
  have ok: "\<forall>k. write_ok ?env k" by (simp add: env_with_def)
  obtain w2 where
    b: "build_stage ?env ?ws (JStr ''demo'') (JArr ?atts) wb = (Inr (), w2)"
    using build_stage_succeeds [OF ok workspace_stage_dir [OF a] g] by blast
  have c: "\<forall>a\<in>set ?atts. plain_name (name_of a)"
    by (simp add: name_of_def attachment_def plain_name_def)
  have n: "map name_of ?atts = [''a.txt'']"
    by (simp add: name_of_def attachment_def)
  have l2: "listing w2 ?ws = {''a.txt'', ''index.html'', ''README.md'', ''LICENSE''}"
    using post_build_listing [OF a b c] unfolding n by (auto simp: generated_names_def)
  note t = failed_local_stage_aborts [where env = ?env and task = ?task and w = world0
      and e = CalledProcessError and ?w1.0 = w1 and f = ?f and ?w0.0 = ?w0 and pre = "[]"
      and post = ?atts and ws = ?ws and wm = wm and wa = "log_line (LWorkspace ?ws) wm"
      and wb = wb and ?r2.0 = "Inr ()" and ?w2.0 = w2]
  have p1: "process_task ?env ?task world0 = Some (log_line (LError CalledProcessError) w1)"
    and tr: "\<exists>es. trace w1 = trace world0 @ es \<and> list_all is_local es"
    using t l by blast+
  obtain w' where p: "process_task ?env ?task world0 = Some w'"
    and d: "dirs w' ?ws \<noteq> None"
    using t rf m wa by auto
  obtain w'' where p': "process_task ?env ?task world0 = Some w''"
    and d': "dirs w'' = dirs w2"
    using t rf a b by auto
  have e1: "w' = log_line (LError CalledProcessError) w1" using p p1 by simp
  have e2: "w'' = w'" using p p' by simp
  have li: "listing w' ?ws = {''a.txt'', ''index.html'', ''README.md'', ''LICENSE''}"
    using l2 d' e2 by (simp add: listing_def)
  show ?thesis
    by (rule exI [of _ w1], rule exI [of _ w']) (intro conjI l p e1 tr d li)
qed

end
